theory Spec2Isabelle
  imports Main "HOL-Library.Multiset"
begin

section \<open>Expressions, substitutions and constraints\<close>

text \<open>
  The matcher of \<^verbatim>\<open>patternmatcher/matching/common.py\<close> works on the expression classes
  of the package: symbols, wildcards, variables and operations. Users derive their own
  symbol and operation classes, and the matcher tests them with \<^verbatim>\<open>isinstance\<close>. A class
  below one of the built-in bases is written as the list of class names from the class
  itself up to, and excluding, the base: \<open>[]\<close> is the base class itself and
  \<open>[''SpecialSymbol'']\<close> is \<^verbatim>\<open>class SpecialSymbol(Symbol)\<close>.
\<close>

type_synonym pyclass = "string list"

definition issubclass :: "pyclass \<Rightarrow> pyclass \<Rightarrow> bool" where
  "issubclass c d = (length d \<le> length c \<and> drop (length c - length d) c = d)"

text \<open>
  A constraint is a callable on a substitution. Expressions are compared with \<^verbatim>\<open>==\<close>,
  so a constraint is carried in an expression as an identifier, and the environment says
  what the callable with that identifier answers. \<open>MultiConstraint\<close> is the conjunction
  built by \<^verbatim>\<open>MultiConstraint.create\<close>.
\<close>

datatype constraint = Constraint nat | MultiConstraint "constraint list"

datatype optype = OpType (op_class: pyclass) (associative: bool) (commutative: bool)

datatype wildcard =
  MkWildcard (min_count: nat) (fixed_size: bool) (symbol_type: "pyclass option")
    (wildcard_constraint: "constraint option")

datatype expr =
    Symbol pyclass string "constraint option"
  | Wildcard wildcard
  | Variable string expr "constraint option"
  | Operation optype "expr list" "constraint option"

text \<open>
  The value of a variable is one expression, a tuple of expressions (\<^verbatim>\<open>tuple(expressions)\<close>
  in \<^verbatim>\<open>match_variable\<close>) or a list of expressions (\<^verbatim>\<open>sorted(exprs)\<close> and
  \<^verbatim>\<open>list(sub_counter)\<close> in the commutative matcher); Python never finds a tuple equal to a list.
\<close>

datatype pyvalue = VExpr expr | VTuple "expr list" | VList "expr list"

text \<open>
  A \<^verbatim>\<open>Substitution\<close> is a dictionary from variable names to values: the list of its
  items in the order of insertion, every name at most once.
\<close>

type_synonym substitution = "(string \<times> pyvalue) list"

text \<open>\<^verbatim>\<open>d[k] = v\<close> on a dictionary: a key that is present keeps its place.\<close>

fun dict_set :: "'k \<Rightarrow> 'v \<Rightarrow> ('k \<times> 'v) list \<Rightarrow> ('k \<times> 'v) list" where
  "dict_set k v [] = [(k, v)]"
| "dict_set k v ((k', v') # d) = (if k = k' then (k, v) # d else (k', v') # dict_set k v d)"

text \<open>
  What lies outside the expressions: the answer of each constraint callable, by its
  identifier, and the order \<^verbatim>\<open><\<close> of expressions that \<^verbatim>\<open>sorted\<close> uses.
\<close>

record env =
  holds_atom :: "nat \<Rightarrow> substitution \<Rightarrow> bool"
  expr_lt :: "expr \<Rightarrow> expr \<Rightarrow> bool"

fun holds :: "env \<Rightarrow> constraint \<Rightarrow> substitution \<Rightarrow> bool" where
  "holds env (Constraint n) s = holds_atom env n s"
| "holds env (MultiConstraint cs) s = (\<forall>c \<in> set cs. holds env c s)"

text \<open>\<^verbatim>\<open>constraint is None or constraint(subst)\<close>\<close>

definition accepts :: "env \<Rightarrow> constraint option \<Rightarrow> substitution \<Rightarrow> bool" where
  "accepts env c s = (case c of None \<Rightarrow> True | Some k \<Rightarrow> holds env k s)"

fun isinstance_symbol :: "expr \<Rightarrow> pyclass \<Rightarrow> bool" where
  "isinstance_symbol (Symbol c _ _) d = issubclass c d"
| "isinstance_symbol _ _ = False"

fun isinstance_operation :: "expr \<Rightarrow> optype \<Rightarrow> bool" where
  "isinstance_operation (Operation t _ _) u = issubclass (op_class t) (op_class u)"
| "isinstance_operation _ _ = False"

section \<open>Generators over a heap of substitution objects\<close>

text \<open>
  A \<^verbatim>\<open>Substitution\<close> is a mutable dictionary object, and the matcher hands references to
  such objects around. The heap is the list of all substitution objects created so far,
  a reference is an index into it. A generator is run to its end: it returns what it
  yielded, the exception that ended it (if one did) and the heap it leaves.
\<close>

datatype error =
  ValueError | AssertionError | IndexError | KeyError | AttributeError | ZeroDivisionError

type_synonym ref = nat
type_synonym heap = "substitution list"
type_synonym 'a gen = "heap \<Rightarrow> 'a list \<times> error option \<times> heap"

definition gen_stop :: "'a gen" where
  "gen_stop h = ([], None, h)"

definition gen_yield :: "'a \<Rightarrow> 'a gen" where
  "gen_yield x h = ([x], None, h)"

definition gen_raise :: "error \<Rightarrow> 'a gen" where
  "gen_raise e h = ([], Some e, h)"

text \<open>\<^verbatim>\<open>if constraint is None or constraint(subst): ...\<close> with \<open>subst\<close> a reference.\<close>

definition if_accepts :: "env \<Rightarrow> constraint option \<Rightarrow> ref \<Rightarrow> 'a gen \<Rightarrow> 'a gen" where
  "if_accepts env c subst body h = (if accepts env c (h ! subst) then body h else gen_stop h)"

section \<open>Atomic matchers\<close>

definition match_wildcard :: "env \<Rightarrow> expr list \<Rightarrow> wildcard \<Rightarrow> ref \<Rightarrow> ref gen" where
  "match_wildcard env expressions wildcard subst =
     (if fixed_size wildcard then
        (if length expressions = min_count wildcard then
           (case symbol_type wildcard of
              None \<Rightarrow> if_accepts env (wildcard_constraint wildcard) subst (gen_yield subst)
            | Some t \<Rightarrow>
                (case expressions of
                   [] \<Rightarrow> gen_raise IndexError
                 | e # _ \<Rightarrow>
                     if \<not> isinstance_symbol e t then gen_stop
                     else if_accepts env (wildcard_constraint wildcard) subst (gen_yield subst)))
         else gen_stop)
      else if min_count wildcard \<le> length expressions then
        if_accepts env (wildcard_constraint wildcard) subst (gen_yield subst)
      else gen_stop)"

section \<open>Derived attributes of expressions\<close>

text \<open>
  Modelled from the spec: the expression classes (\<^verbatim>\<open>expressions.py\<close>) are not part of the
  sources at hand. An expression is constant when no variable or wildcard occurs in it; it
  is syntactic when no associative or commutative operation and no sequence wildcard
  occurs in it. A bare wildcard has no head, a variable has the head of what it wraps, the
  head of an operation is its operator type, and a symbol is its own head.
  \<^verbatim>\<open>from_args\<close> builds an operation of the given operator type from operands.
\<close>

fun is_constant :: "expr \<Rightarrow> bool" where
  "is_constant (Symbol _ _ _) = True"
| "is_constant (Wildcard _) = False"
| "is_constant (Variable _ _ _) = False"
| "is_constant (Operation _ ops _) = list_all is_constant ops"

fun is_syntactic :: "expr \<Rightarrow> bool" where
  "is_syntactic (Symbol _ _ _) = True"
| "is_syntactic (Wildcard w) = fixed_size w"
| "is_syntactic (Variable _ e _) = is_syntactic e"
| "is_syntactic (Operation t ops _) =
     (\<not> associative t \<and> \<not> commutative t \<and> list_all is_syntactic ops)"

datatype expr_head = OperationHead optype | SymbolHead pyclass string

fun head :: "expr \<Rightarrow> expr_head option" where
  "head (Symbol c n _) = Some (SymbolHead c n)"
| "head (Wildcard _) = None"
| "head (Variable _ e _) = head e"
| "head (Operation t _ _) = Some (OperationHead t)"

definition from_args :: "optype \<Rightarrow> expr list \<Rightarrow> expr" where
  "from_args t args = Operation t args None"

text \<open>
  Modelled from the spec: \<^verbatim>\<open>MultiConstraint.create\<close> (\<^verbatim>\<open>constraints.py\<close>) returns
  \<^verbatim>\<open>None\<close> when all its arguments are \<^verbatim>\<open>None\<close>, the one constraint when only one is not,
  and otherwise the composite that is their conjunction.
\<close>

definition MultiConstraint_create :: "constraint option list \<Rightarrow> constraint option" where
  "MultiConstraint_create cs =
     (case List.map_filter id cs of
        [] \<Rightarrow> None
      | [c] \<Rightarrow> Some c
      | c # d # ds \<Rightarrow> Some (MultiConstraint (c # d # ds)))"

section \<open>Multisets as counting dictionaries\<close>

text \<open>
  \<^verbatim>\<open>Multiset\<close> (package \<^verbatim>\<open>multiset\<close>) is a dictionary from elements to positive counts,
  iterated in the order in which its keys were inserted.
\<close>

type_synonym 'a pymultiset = "('a \<times> nat) list"

text \<open>\<^verbatim>\<open>m[x] += 1\<close>\<close>

fun ms_incr :: "'a \<Rightarrow> 'a pymultiset \<Rightarrow> 'a pymultiset" where
  "ms_incr x [] = [(x, 1)]"
| "ms_incr x ((y, c) # m) = (if x = y then (y, Suc c) # m else (y, c) # ms_incr x m)"

text \<open>\<^verbatim>\<open>len(m)\<close>\<close>

definition ms_len :: "'a pymultiset \<Rightarrow> nat" where
  "ms_len m = sum_list (map snd m)"

text \<open>\<^verbatim>\<open>list(m)\<close>: every element as often as it is counted.\<close>

definition ms_elements :: "'a pymultiset \<Rightarrow> 'a list" where
  "ms_elements m = concat (map (\<lambda>(x, c). replicate c x) m)"

section \<open>The parts of a commutative pattern\<close>

datatype var_info = VarInfo (info_min_count: nat) (info_constraint: "constraint option")

text \<open>A variable name, or \<^verbatim>\<open>None\<close> for the unnamed wildcards.\<close>

type_synonym name = "string option"

record commutative_patterns_parts =
  operation :: optype
  length' :: nat
  "constant" :: "expr pymultiset"
  syntactic :: "expr pymultiset"
  sequence_variables :: "name pymultiset"
  sequence_variable_infos :: "name \<rightharpoonup> var_info"
  fixed_variables :: "name pymultiset"
  fixed_variable_infos :: "name \<rightharpoonup> var_info"
  rest :: "expr pymultiset"
  sequence_variable_min_length :: nat
  fixed_variable_length :: nat
  wildcard_min_length :: nat
  wildcard_fixed :: "bool option"

definition update_var_info ::
  "(name \<rightharpoonup> var_info) \<Rightarrow> name \<Rightarrow> nat \<Rightarrow> constraint option \<Rightarrow> error + (name \<rightharpoonup> var_info)" where
  "update_var_info infos name count' constraint =
     (case infos name of
        None \<Rightarrow> Inr (infos(name \<mapsto> VarInfo count' constraint))
      | Some existing_info \<Rightarrow>
          if info_min_count existing_info \<noteq> count' then Inl AssertionError
          else (case constraint of
                  None \<Rightarrow> Inr infos
                | Some c \<Rightarrow>
                    if name = None then Inl AssertionError
                    else Inr (infos(name \<mapsto> VarInfo count'
                           (case info_constraint existing_info of
                              None \<Rightarrow> Some c
                            | Some old \<Rightarrow> MultiConstraint_create [Some old, Some c])))))"

text \<open>The body of the loop of \<^verbatim>\<open>__init__\<close>, for one operand.\<close>

definition classify_operand ::
  "commutative_patterns_parts \<Rightarrow> expr \<Rightarrow> error + commutative_patterns_parts" where
  "classify_operand self expression =
     (if is_constant expression then
        Inr (self\<lparr>constant := ms_incr expression (constant self)\<rparr>)
      else if head expression = None then
        (case expression of
           Variable name inner constraint \<Rightarrow>
             (case inner of
                Wildcard wc \<Rightarrow>
                  if fixed_size wc then
                    (case update_var_info (fixed_variable_infos self) (Some name)
                            (min_count wc) constraint of
                       Inl e \<Rightarrow> Inl e
                     | Inr infos \<Rightarrow>
                         Inr (self\<lparr>fixed_variables := ms_incr (Some name) (fixed_variables self),
                                   fixed_variable_infos := infos,
                                   fixed_variable_length :=
                                     fixed_variable_length self + min_count wc\<rparr>))
                  else
                    (case update_var_info (sequence_variable_infos self) (Some name)
                            (min_count wc) constraint of
                       Inl e \<Rightarrow> Inl e
                     | Inr infos \<Rightarrow>
                         Inr (self\<lparr>sequence_variables :=
                                     ms_incr (Some name) (sequence_variables self),
                                   sequence_variable_infos := infos,
                                   sequence_variable_min_length :=
                                     sequence_variable_min_length self + min_count wc\<rparr>))
              | _ \<Rightarrow> Inl AttributeError)
         | Wildcard wc \<Rightarrow>
             Inr (self\<lparr>wildcard_min_length := wildcard_min_length self + min_count wc,
                       wildcard_fixed :=
                         (case wildcard_fixed self of
                            None \<Rightarrow> Some (fixed_size wc)
                          | Some b \<Rightarrow> Some (b \<and> fixed_size wc))\<rparr>)
         | _ \<Rightarrow> Inl AttributeError)
      else if is_syntactic expression then
        Inr (self\<lparr>syntactic := ms_incr expression (syntactic self)\<rparr>)
      else
        Inr (self\<lparr>rest := ms_incr expression (rest self)\<rparr>))"

fun classify_operands ::
  "commutative_patterns_parts \<Rightarrow> expr list \<Rightarrow> error + commutative_patterns_parts" where
  "classify_operands self [] = Inr self"
| "classify_operands self (expression # expressions) =
     (case classify_operand self expression of
        Inl e \<Rightarrow> Inl e
      | Inr self' \<Rightarrow> classify_operands self' expressions)"

definition CommutativePatternsParts ::
  "optype \<Rightarrow> expr list \<Rightarrow> error + commutative_patterns_parts" where
  "CommutativePatternsParts operation' expressions =
     classify_operands
       \<lparr>operation = operation', length' = length expressions,
        constant = [], syntactic = [],
        sequence_variables = [], sequence_variable_infos = Map.empty,
        fixed_variables = [], fixed_variable_infos = Map.empty,
        rest = [],
        sequence_variable_min_length = 0, fixed_variable_length = 0,
        wildcard_min_length = 0, wildcard_fixed = None\<rparr>
       expressions"








section \<open>The non-commutative matcher: slots and partitions\<close>

text \<open>\<^verbatim>\<open>operand.expression if isinstance(operand, Variable) else operand\<close>\<close>

fun inner_of :: "expr \<Rightarrow> expr" where
  "inner_of (Variable _ e _) = e"
| "inner_of e = e"

text \<open>
  An operation pattern is passed as its operator type, which carries the flags
  \<open>associative\<close> and \<open>commutative\<close>, and its operands.
\<close>

fun count_seq_vars_loop :: "optype \<Rightarrow> expr list \<Rightarrow> int \<Rightarrow> nat \<Rightarrow> error + int \<times> nat" where
  "count_seq_vars_loop t [] remaining sequence_var_count = Inr (remaining, sequence_var_count)"
| "count_seq_vars_loop t (operand # operands) remaining sequence_var_count =
     (case inner_of operand of
        Wildcard w \<Rightarrow>
          if remaining - int (min_count w) < 0 then Inl ValueError
          else count_seq_vars_loop t operands (remaining - int (min_count w))
                 (if \<not> fixed_size w \<or> associative t then Suc sequence_var_count
                  else sequence_var_count)
      | _ \<Rightarrow>
          if remaining - 1 < 0 then Inl ValueError
          else count_seq_vars_loop t operands (remaining - 1) sequence_var_count)"

definition count_seq_vars :: "expr list \<Rightarrow> optype \<Rightarrow> expr list \<Rightarrow> error + int \<times> nat" where
  "count_seq_vars expressions t operands =
     count_seq_vars_loop t operands (int (length expressions)) 0"

text \<open>
  \<^verbatim>\<open>wrap_associative = inner.fixed_size and inner.min_count\<close> is \<^verbatim>\<open>False\<close> or a number, and
  is only used for its truth value and, when true, as a number: \<open>0\<close> stands for both
  falsy values.
\<close>

fun build_full_partition_loop ::
  "nat list \<Rightarrow> expr list \<Rightarrow> optype \<Rightarrow> expr list \<Rightarrow> nat \<Rightarrow> nat \<Rightarrow> error + expr list list" where
  "build_full_partition_loop sequence_var_partition expressions t [] i var_index = Inr []"
| "build_full_partition_loop sequence_var_partition expressions t (operand # operands) i var_index =
     (case (case inner_of operand of
              Wildcard inner \<Rightarrow>
                if \<not> fixed_size inner \<or> associative t then
                  (if var_index < length sequence_var_partition then
                     Inr (min_count inner + sequence_var_partition ! var_index, Suc var_index,
                          if fixed_size inner then min_count inner else 0)
                   else Inl IndexError)
                else Inr (min_count inner, var_index, 0)
            | _ \<Rightarrow> Inr (1, var_index, 0)) of
        Inl e \<Rightarrow> Inl e
      | Inr (count', var_index', wrap_associative) \<Rightarrow>
          (let operand_expressions = take count' (drop i expressions);
               operand_expressions' =
                 (if wrap_associative \<noteq> 0 \<and> wrap_associative < length operand_expressions then
                    take (wrap_associative - 1) operand_expressions
                      @ [from_args t (drop (wrap_associative - 1) operand_expressions)]
                  else operand_expressions)
           in case build_full_partition_loop sequence_var_partition expressions t operands
                     (i + count') var_index' of
                Inl e \<Rightarrow> Inl e
              | Inr result \<Rightarrow> Inr (operand_expressions' # result)))"

definition build_full_partition ::
  "nat list \<Rightarrow> expr list \<Rightarrow> optype \<Rightarrow> expr list \<Rightarrow> error + expr list list" where
  "build_full_partition sequence_var_partition expressions t operands =
     build_full_partition_loop sequence_var_partition expressions t operands 0 0"

section \<open>Loops over generators, and the heap\<close>

text \<open>
  \<^verbatim>\<open>for x in xs: body(x)\<close> inside a generator: what the passes yield is yielded in order, and
  an exception in a pass ends the loop.
\<close>

fun gen_for_items :: "'a list \<Rightarrow> ('a \<Rightarrow> 'b gen) \<Rightarrow> 'b gen" where
  "gen_for_items [] body h = ([], None, h)"
| "gen_for_items (x # xs) body h =
     (case body x h of
        (ys, Some e, h1) \<Rightarrow> (ys, Some e, h1)
      | (ys, None, h1) \<Rightarrow>
          (case gen_for_items xs body h1 of (zs, e, h2) \<Rightarrow> (ys @ zs, e, h2)))"

text \<open>
  \<^verbatim>\<open>for x in g: body(x)\<close> over another generator \<open>g\<close>. The generator \<open>g\<close> is run to its end
  before the passes: the passes see what it yielded, and the exception that ended it is
  raised after the last pass, unless a pass raised before.
\<close>

definition gen_for :: "'a gen \<Rightarrow> ('a \<Rightarrow> 'b gen) \<Rightarrow> 'b gen" where
  "gen_for g body h =
     (case g h of
        (xs, e, h1) \<Rightarrow>
          (case gen_for_items xs body h1 of
             (ys, Some e', h2) \<Rightarrow> (ys, Some e', h2)
           | (ys, None, h2) \<Rightarrow> (ys, e, h2)))"

text \<open>\<^verbatim>\<open>try: ... except ValueError: pass\<close> around a part of a generator.\<close>

definition gen_except_ValueError :: "'a gen \<Rightarrow> 'a gen" where
  "gen_except_ValueError g h =
     (case g h of
        (ys, Some ValueError, h1) \<Rightarrow> (ys, None, h1)
      | r \<Rightarrow> r)"

text \<open>Reading the dictionary behind a reference.\<close>

definition with_substitution :: "ref \<Rightarrow> (substitution \<Rightarrow> 'a gen) \<Rightarrow> 'a gen" where
  "with_substitution r body h = body (h ! r) h"

text \<open>\<^verbatim>\<open>Substitution(items)\<close>: a new object.\<close>

definition new_substitution :: "substitution \<Rightarrow> (ref \<Rightarrow> 'a gen) \<Rightarrow> 'a gen" where
  "new_substitution content body h = body (length h) (h @ [content])"

text \<open>\<^verbatim>\<open>Substitution(subst)\<close>: a new object with the items of \<open>subst\<close>.\<close>

definition copy_substitution :: "ref \<Rightarrow> (ref \<Rightarrow> 'a gen) \<Rightarrow> 'a gen" where
  "copy_substitution r body h = body (length h) (h @ [h ! r])"

text \<open>\<^verbatim>\<open>subst[name] = value\<close>: the object behind the reference is changed in place.\<close>

definition set_item :: "ref \<Rightarrow> string \<Rightarrow> pyvalue \<Rightarrow> 'a gen \<Rightarrow> 'a gen" where
  "set_item r k v body h = body (h[r := dict_set k v (h ! r)])"

text \<open>\<^verbatim>\<open>subst[name]\<close> where the name may be \<^verbatim>\<open>None\<close>, which is never a key.\<close>

definition subst_get :: "substitution \<Rightarrow> name \<Rightarrow> pyvalue option" where
  "subst_get s name = (case name of None \<Rightarrow> None | Some n \<Rightarrow> map_of s n)"

text \<open>
  Modelled from the spec: \<^verbatim>\<open>Substitution.union\<close> (\<^verbatim>\<open>expressions.py\<close>) extends the
  substitution pointwise by the items of the other one and fails on a conflict, that is
  when a name is bound in both to unequal values. The result is a new substitution.
\<close>

fun substitution_union :: "substitution \<Rightarrow> substitution \<Rightarrow> error + substitution" where
  "substitution_union s [] = Inr s"
| "substitution_union s ((n, v) # other) =
     (case map_of s n of
        None \<Rightarrow> substitution_union (s @ [(n, v)]) other
      | Some v' \<Rightarrow> if v' = v then substitution_union s other else Inl ValueError)"

section \<open>Matching a variable\<close>

type_synonym matcher = "expr list \<Rightarrow> expr \<Rightarrow> ref \<Rightarrow> ref gen"

text \<open>The variable is passed as its name, the expression it wraps and its constraint.\<close>

definition match_variable ::
  "env \<Rightarrow> expr list \<Rightarrow> string \<Rightarrow> expr \<Rightarrow> constraint option \<Rightarrow> ref \<Rightarrow> matcher \<Rightarrow> ref gen" where
  "match_variable env expressions name inner constraint subst matcher =
     (let expr = (if length expressions = 1
                     \<and> (case inner of Wildcard w \<Rightarrow> fixed_size w | _ \<Rightarrow> True)
                  then VExpr (hd expressions) else VTuple expressions)
      in with_substitution subst (\<lambda>s.
           case map_of s name of
             Some v \<Rightarrow>
               if expr = v then if_accepts env constraint subst (gen_yield subst) else gen_stop
           | None \<Rightarrow>
               gen_for (matcher expressions inner subst) (\<lambda>new_subst.
                 copy_substitution new_subst (\<lambda>new_subst'.
                   set_item new_subst' name expr
                     (if_accepts env constraint new_subst' (gen_yield new_subst'))))))"

section \<open>The non-commutative matcher\<close>

text \<open>
  Modelled from the spec: \<^verbatim>\<open>integer_partition_vector_iter\<close> and \<^verbatim>\<open>iterator_chain\<close>
  (\<^verbatim>\<open>utils.py\<close>) are not part of the sources at hand. The first enumerates, in
  lexicographic order, every vector of non-negative integers of the given length that
  sums to the total. The second starts from the initial state, calls each factory on the
  state produced by the one before, and yields every state that comes out of the last.
\<close>

fun integer_partition_vector_iter :: "nat \<Rightarrow> nat \<Rightarrow> nat list list" where
  "integer_partition_vector_iter total' 0 = (if total' = 0 then [[]] else [])"
| "integer_partition_vector_iter total' (Suc parts) =
     concat (map (\<lambda>i. map ((#) i) (integer_partition_vector_iter (total' - i) parts))
               [0..<Suc total'])"

fun iterator_chain :: "'s \<Rightarrow> ('s \<Rightarrow> 's gen) list \<Rightarrow> 's gen" where
  "iterator_chain state [] = gen_yield state"
| "iterator_chain state (factory # factories) =
     gen_for (factory state) (\<lambda>state'. iterator_chain state' factories)"

definition match_factory :: "expr list \<Rightarrow> expr \<Rightarrow> matcher \<Rightarrow> ref \<Rightarrow> ref gen" where
  "match_factory expressions operand matcher = (\<lambda>subst. matcher expressions operand subst)"

definition non_commutative_match ::
  "expr list \<Rightarrow> optype \<Rightarrow> expr list \<Rightarrow> ref \<Rightarrow> matcher \<Rightarrow> ref gen" where
  "non_commutative_match expressions t operands subst matcher =
     (case count_seq_vars expressions t operands of
        Inl ValueError \<Rightarrow> gen_stop
      | Inl e \<Rightarrow> gen_raise e
      | Inr (remaining, sequence_var_count) \<Rightarrow>
          gen_for_items (integer_partition_vector_iter (nat remaining) sequence_var_count)
            (\<lambda>part.
               case build_full_partition part expressions t operands of
                 Inl e \<Rightarrow> gen_raise e
               | Inr partition' \<Rightarrow>
                   iterator_chain subst
                     (map (\<lambda>(e, operand). match_factory e operand matcher)
                        (zip partition' operands))))"

section \<open>Operations on multisets\<close>

text \<open>\<^verbatim>\<open>m.keys()\<close>, \<^verbatim>\<open>m[x]\<close>, \<^verbatim>\<open>Multiset(xs)\<close>, \<^verbatim>\<open>a <= b\<close>, \<^verbatim>\<open>a - b\<close>, \<^verbatim>\<open>a + b\<close>, \<^verbatim>\<open>m * k\<close>,
  \<^verbatim>\<open>Multiset({x: c})\<close>, \<^verbatim>\<open>Multiset(dict(items))\<close> and \<^verbatim>\<open>del m[x]\<close>.\<close>

definition ms_keys :: "'a pymultiset \<Rightarrow> 'a list" where
  "ms_keys m = map fst m"

definition ms_count :: "'a pymultiset \<Rightarrow> 'a \<Rightarrow> nat" where
  "ms_count m x = (case map_of m x of None \<Rightarrow> 0 | Some c \<Rightarrow> c)"

definition ms_of_list :: "'a list \<Rightarrow> 'a pymultiset" where
  "ms_of_list xs = foldl (\<lambda>m x. ms_incr x m) [] xs"

definition ms_le :: "'a pymultiset \<Rightarrow> 'a pymultiset \<Rightarrow> bool" where
  "ms_le a b = list_all (\<lambda>(x, c). c \<le> ms_count b x) a"

definition ms_diff :: "'a pymultiset \<Rightarrow> 'a pymultiset \<Rightarrow> 'a pymultiset" where
  "ms_diff a b = filter (\<lambda>(x, c). 0 < c) (map (\<lambda>(x, c). (x, c - ms_count b x)) a)"

fun ms_add_item :: "'a \<Rightarrow> nat \<Rightarrow> 'a pymultiset \<Rightarrow> 'a pymultiset" where
  "ms_add_item x n [] = [(x, n)]"
| "ms_add_item x n ((y, c) # m) = (if x = y then (y, c + n) # m else (y, c) # ms_add_item x n m)"

definition ms_plus :: "'a pymultiset \<Rightarrow> 'a pymultiset \<Rightarrow> 'a pymultiset" where
  "ms_plus a b = foldl (\<lambda>m (x, c). ms_add_item x c m) a b"

definition ms_times :: "'a pymultiset \<Rightarrow> nat \<Rightarrow> 'a pymultiset" where
  "ms_times m k = (if k = 0 then [] else map (\<lambda>(x, c). (x, c * k)) m)"

definition ms_single :: "'a \<Rightarrow> nat \<Rightarrow> 'a pymultiset" where
  "ms_single x c = (if c = 0 then [] else [(x, c)])"

definition ms_of_dict :: "('a \<times> nat) list \<Rightarrow> 'a pymultiset" where
  "ms_of_dict items = filter (\<lambda>(x, c). 0 < c) items"

definition ms_del :: "'a \<Rightarrow> 'a pymultiset \<Rightarrow> 'a pymultiset" where
  "ms_del x m = filter (\<lambda>(y, c). y \<noteq> x) m"

section \<open>The commutative matcher\<close>

fun operands_of :: "expr \<Rightarrow> expr list" where
  "operands_of (Operation _ ops _) = ops"
| "operands_of _ = []"

fun constraint_of :: "expr \<Rightarrow> constraint option" where
  "constraint_of (Symbol _ _ c) = c"
| "constraint_of (Wildcard w) = wildcard_constraint w"
| "constraint_of (Variable _ _ c) = c"
| "constraint_of (Operation _ _ c) = c"

text \<open>The values of a variable as a sequence of expressions.\<close>

fun value_list :: "pyvalue \<Rightarrow> expr list" where
  "value_list (VExpr e) = [e]"
| "value_list (VTuple es) = es"
| "value_list (VList es) = es"

type_synonym state = "expr pymultiset \<times> ref"

definition fixed_expr_factory :: "env \<Rightarrow> expr \<Rightarrow> matcher \<Rightarrow> state \<Rightarrow> state gen" where
  "fixed_expr_factory env expression matcher = (\<lambda>(expressions, substitution).
     gen_for_items (ms_keys expressions) (\<lambda>expr.
       if head expr = head expression then
         gen_for (matcher [expr] expression substitution) (\<lambda>subst.
           if_accepts env (constraint_of expression) subst
             (gen_yield (ms_diff expressions (ms_single expr 1), subst)))
       else gen_stop))"

text \<open>
  Modelled from the spec: \<^verbatim>\<open>fixed_integer_vector_iter\<close> (\<^verbatim>\<open>utils.py\<close>) enumerates every
  vector of non-negative integers, as long as the vector of maxima, whose components do
  not exceed the maxima and sum to the total.
\<close>

fun fixed_integer_vector_iter :: "nat list \<Rightarrow> nat \<Rightarrow> nat list list" where
  "fixed_integer_vector_iter [] total' = (if total' = 0 then [[]] else [])"
| "fixed_integer_vector_iter (m # max_vector) total' =
     concat (map (\<lambda>v. map ((#) v) (fixed_integer_vector_iter max_vector (total' - v)))
               [0..<Suc (min m total')])"

definition fixed_var_iter_factory ::
  "env \<Rightarrow> name \<Rightarrow> nat \<Rightarrow> nat \<Rightarrow> constraint option \<Rightarrow> state \<Rightarrow> state gen" where
  "fixed_var_iter_factory env variable count' length'' constraint = (\<lambda>(expressions, substitution).
     with_substitution substitution (\<lambda>s.
       case subst_get s variable of
         Some v \<Rightarrow>
           (let existing = ms_times (ms_of_list (value_list v)) count'
            in if \<not> ms_le existing expressions then gen_stop
               else if_accepts env constraint substitution
                      (gen_yield (ms_diff expressions existing, substitution)))
       | None \<Rightarrow>
           if length'' = 1 then
             gen_for_items expressions (\<lambda>(expr, expr_count).
               if count' \<le> expr_count then
                 (case variable of
                    Some name \<Rightarrow>
                      copy_substitution substitution (\<lambda>new_substitution.
                        set_item new_substitution name (VExpr expr)
                          (if_accepts env constraint new_substitution
                             (gen_yield (ms_diff expressions (ms_single expr count'),
                                         new_substitution))))
                  | None \<Rightarrow>
                      gen_yield (ms_diff expressions (ms_single expr count'), substitution))
               else gen_stop)
           else if expressions \<noteq> [] \<and> count' = 0 then gen_raise ZeroDivisionError
           else
             gen_for_items
               (fixed_integer_vector_iter (map (\<lambda>(_, c). c div count') expressions) length'')
               (\<lambda>subset.
                  let sub_counter =
                        ms_of_dict (map (\<lambda>((e, _), c). (e, c * count')) (zip expressions subset))
                  in case variable of
                       Some name \<Rightarrow>
                         copy_substitution substitution (\<lambda>new_substitution.
                           set_item new_substitution name (VList (ms_elements sub_counter))
                             (if_accepts env constraint new_substitution
                                (gen_yield (ms_diff expressions sub_counter, new_substitution))))
                     | None \<Rightarrow> gen_yield (ms_diff expressions sub_counter, substitution))))"

datatype variable_with_count =
  VariableWithCount (vname: name) (vcount: nat) (vminimum: nat)

fun variables_with_counts ::
  "name pymultiset \<Rightarrow> (name \<rightharpoonup> var_info) \<Rightarrow> error + variable_with_count list" where
  "variables_with_counts [] infos = Inr []"
| "variables_with_counts ((name, count') # variables) infos =
     (case infos name of
        None \<Rightarrow> Inl KeyError
      | Some info \<Rightarrow>
          (case variables_with_counts variables infos of
             Inl e \<Rightarrow> Inl e
           | Inr vs \<Rightarrow> Inr (VariableWithCount name count' (info_min_count info) # vs)))"

text \<open>\<^verbatim>\<open>[infos[name].constraint for name in names]\<close>\<close>

fun info_constraints :: "name list \<Rightarrow> (name \<rightharpoonup> var_info) \<Rightarrow> error + constraint option list" where
  "info_constraints [] infos = Inr []"
| "info_constraints (name # names) infos =
     (case infos name of
        None \<Rightarrow> Inl KeyError
      | Some info \<Rightarrow>
          (case info_constraints names infos of
             Inl e \<Rightarrow> Inl e
           | Inr cs \<Rightarrow> Inr (info_constraint info # cs)))"

text \<open>
  Modelled from the spec: \<^verbatim>\<open>commutative_sequence_variable_partition_iter\<close> (\<^verbatim>\<open>utils.py\<close>)
  yields every assignment of a multiset of expressions to each slot such that each slot
  receives at least its minimum of operands and the multisets, each taken as often as its
  slot occurs, sum to the multiset given. \<open>weighted_splits\<close> shares the copies of one
  expression among the slots, \<open>distributions\<close> does so for every expression.
\<close>

fun weighted_splits :: "nat list \<Rightarrow> nat \<Rightarrow> nat list list" where
  "weighted_splits [] k = (if k = 0 then [[]] else [])"
| "weighted_splits (c # cs) k =
     concat (map (\<lambda>n. map ((#) n) (weighted_splits cs (k - n * c)))
               (filter (\<lambda>n. n * c \<le> k) [0..<Suc k]))"

fun distributions :: "expr pymultiset \<Rightarrow> nat list \<Rightarrow> expr pymultiset list list" where
  "distributions [] counts = [map (\<lambda>_. []) counts]"
| "distributions ((e, k) # vals) counts =
     concat (map (\<lambda>shares.
               map (\<lambda>ms. map (\<lambda>(n, m). if n = 0 then m else (e, n) # m) (zip shares ms))
                 (distributions vals counts))
             (weighted_splits counts k))"

definition commutative_sequence_variable_partition_iter ::
  "expr pymultiset \<Rightarrow> variable_with_count list \<Rightarrow> (name \<times> expr pymultiset) list list" where
  "commutative_sequence_variable_partition_iter vals variables =
     map (\<lambda>ms. zip (map vname variables) ms)
       (filter (\<lambda>ms. list_all (\<lambda>(var, m). vminimum var \<le> ms_len m) (zip variables ms))
          (distributions vals (map vcount variables)))"

text \<open>
  \<^verbatim>\<open>sorted(exprs)\<close>: a stable sort by the order \<^verbatim>\<open><\<close> of expressions.
\<close>

fun insert_sorted :: "env \<Rightarrow> expr \<Rightarrow> expr list \<Rightarrow> expr list" where
  "insert_sorted env x [] = [x]"
| "insert_sorted env x (y # ys) =
     (if expr_lt env y x then y # insert_sorted env x ys else x # y # ys)"

definition sorted_exprs :: "env \<Rightarrow> expr list \<Rightarrow> expr list" where
  "sorted_exprs env xs = foldr (insert_sorted env) xs []"

text \<open>
  The loop over the fixed variables that are bound already: \<^verbatim>\<open>None\<close> stands for the
  \<^verbatim>\<open>return\<close> out of \<^verbatim>\<open>_matches_from_matching\<close>.
\<close>

fun bound_fixed_vars ::
  "substitution \<Rightarrow> optype \<Rightarrow> name pymultiset \<Rightarrow> expr pymultiset \<Rightarrow> name pymultiset
     \<Rightarrow> (expr pymultiset \<times> name pymultiset) option" where
  "bound_fixed_vars s t [] remaining fixed_vars = Some (remaining, fixed_vars)"
| "bound_fixed_vars s t ((name, count') # items) remaining fixed_vars =
     (case subst_get s name of
        None \<Rightarrow> bound_fixed_vars s t items remaining fixed_vars
      | Some v \<Rightarrow>
          (let needed_count =
                 (case v of
                    VExpr e \<Rightarrow>
                      if associative t \<and> isinstance_operation e t then ms_of_list (operands_of e)
                      else ms_single e 1
                  | VTuple es \<Rightarrow> ms_of_list es
                  | VList es \<Rightarrow> ms_of_list es);
               needed_count' = (if 1 < count' then ms_times needed_count count' else needed_count)
           in if \<not> ms_le needed_count' remaining then None
              else bound_fixed_vars s t items (ms_diff remaining needed_count')
                     (ms_del name fixed_vars)))"

text \<open>The factories of the fixed variables and of the unnamed fixed wildcards.\<close>

fun fixed_var_factories ::
  "env \<Rightarrow> (name \<rightharpoonup> var_info) \<Rightarrow> name pymultiset \<Rightarrow> error + (state \<Rightarrow> state gen) list" where
  "fixed_var_factories env infos [] = Inr []"
| "fixed_var_factories env infos ((name, count') # fixed_vars) =
     (case infos name of
        None \<Rightarrow> Inl KeyError
      | Some info \<Rightarrow>
          (case fixed_var_factories env infos fixed_vars of
             Inl e \<Rightarrow> Inl e
           | Inr fs \<Rightarrow>
               Inr (fixed_var_iter_factory env name count' (info_min_count info)
                      (info_constraint info) # fs)))"

definition variable_factories ::
  "env \<Rightarrow> commutative_patterns_parts \<Rightarrow> name pymultiset \<Rightarrow> error + (state \<Rightarrow> state gen) list" where
  "variable_factories env pattern fixed_vars =
     (if \<not> associative (operation pattern) then
        (case fixed_var_factories env (fixed_variable_infos pattern) fixed_vars of
           Inl e \<Rightarrow> Inl e
         | Inr fs \<Rightarrow>
             Inr (fs @ (if wildcard_fixed pattern = Some True
                        then [fixed_var_iter_factory env None 1 (wildcard_min_length pattern) None]
                        else [])))
      else Inr [])"

text \<open>The slots handed to the partition iterator, and the combined constraint.\<close>

definition sequence_slots ::
  "commutative_patterns_parts \<Rightarrow> name pymultiset
     \<Rightarrow> error + variable_with_count list \<times> constraint option" where
  "sequence_slots pattern fixed_vars =
     (case variables_with_counts (sequence_variables pattern) (sequence_variable_infos pattern) of
        Inl e \<Rightarrow> Inl e
      | Inr sequence_vars \<Rightarrow>
     (case info_constraints (ms_elements (sequence_variables pattern))
             (sequence_variable_infos pattern) of
        Inl e \<Rightarrow> Inl e
      | Inr constraints \<Rightarrow>
     (case (if associative (operation pattern) then
              (case variables_with_counts fixed_vars (fixed_variable_infos pattern) of
                 Inl e \<Rightarrow> Inl e
               | Inr fixed \<Rightarrow>
                   (case info_constraints (ms_elements fixed_vars) (fixed_variable_infos pattern) of
                      Inl e \<Rightarrow> Inl e
                    | Inr fixed_constraints \<Rightarrow>
                        Inr (sequence_vars @ fixed
                               @ (if wildcard_fixed pattern = Some True
                                  then [VariableWithCount None 1 (wildcard_min_length pattern)]
                                  else []),
                             constraints @ fixed_constraints)))
            else Inr (sequence_vars, constraints)) of
        Inl e \<Rightarrow> Inl e
      | Inr (sequence_vars', constraints') \<Rightarrow>
          Inr (sequence_vars'
                 @ (if wildcard_fixed pattern = Some False
                    then [VariableWithCount None 1 (wildcard_min_length pattern)]
                    else []),
               MultiConstraint_create constraints'))))"

text \<open>
  \<^verbatim>\<open>Substitution((var, sorted(exprs)) for var, exprs in sequence_subst.items())\<close>: the share
  of the unnamed wildcards binds no name.
\<close>

definition sequence_substitution :: "env \<Rightarrow> (name \<times> expr pymultiset) list \<Rightarrow> substitution" where
  "sequence_substitution env sequence_subst =
     foldl (\<lambda>s (var, exprs).
              case var of
                None \<Rightarrow> s
              | Some n \<Rightarrow> dict_set n (VList (sorted_exprs env (ms_elements exprs))) s)
       [] sequence_subst"

text \<open>
  The loop \<^verbatim>\<open>for v in fixed_vars.keys()\<close> of an associative pattern: a fixed variable that
  took more operands than its \<open>min_count\<close> is bound to an operation built from them, one
  that took exactly one operand is bound to that operand.
\<close>

fun rewrap_fixed_vars ::
  "optype \<Rightarrow> (name \<rightharpoonup> var_info) \<Rightarrow> name list \<Rightarrow> substitution \<Rightarrow> error + substitution" where
  "rewrap_fixed_vars t infos [] s = Inr s"
| "rewrap_fixed_vars t infos (v # vs) s =
     (case infos v of
        None \<Rightarrow> Inl KeyError
      | Some info \<Rightarrow>
          (case v of
             None \<Rightarrow> Inl KeyError
           | Some n \<Rightarrow>
               (case map_of s n of
                  None \<Rightarrow> Inl KeyError
                | Some val \<Rightarrow>
                    (let l = info_min_count info; elems = value_list val
                     in if l < length elems then
                          rewrap_fixed_vars t infos vs (dict_set n (VExpr (from_args t elems)) s)
                        else if l = length elems \<and> l = 1 then
                          rewrap_fixed_vars t infos vs (dict_set n (VExpr (hd elems)) s)
                        else rewrap_fixed_vars t infos vs s))))"

text \<open>The body of the loop over the states that come out of the chain of factories.\<close>

definition sequence_matches ::
  "env \<Rightarrow> commutative_patterns_parts \<Rightarrow> name pymultiset \<Rightarrow> state \<Rightarrow> ref gen" where
  "sequence_matches env pattern fixed_vars = (\<lambda>(rem_expr, subst).
     case sequence_slots pattern fixed_vars of
       Inl e \<Rightarrow> gen_raise e
     | Inr (sequence_vars, combined_constraint) \<Rightarrow>
         gen_for_items (commutative_sequence_variable_partition_iter rem_expr sequence_vars)
           (\<lambda>sequence_subst.
              case (if associative (operation pattern)
                    then rewrap_fixed_vars (operation pattern) (fixed_variable_infos pattern)
                           (ms_keys fixed_vars) (sequence_substitution env sequence_subst)
                    else Inr (sequence_substitution env sequence_subst)) of
                Inl e \<Rightarrow> gen_raise e
              | Inr s \<Rightarrow>
                  with_substitution subst (\<lambda>other.
                    case substitution_union s other of
                      Inl ValueError \<Rightarrow> gen_stop
                    | Inl e \<Rightarrow> gen_raise e
                    | Inr content \<Rightarrow>
                        new_substitution content (\<lambda>result.
                          if_accepts env combined_constraint result (gen_yield result)))))"

definition matches_from_matching ::
  "env \<Rightarrow> ref \<Rightarrow> expr pymultiset \<Rightarrow> commutative_patterns_parts \<Rightarrow> matcher \<Rightarrow> bool \<Rightarrow> ref gen" where
  "matches_from_matching env subst remaining pattern matcher include_syntactic =
     (let rest_expr = (if include_syntactic then ms_plus (rest pattern) (syntactic pattern)
                       else rest pattern);
          needed_length = ms_len (sequence_variables pattern) + ms_len (fixed_variables pattern)
                            + ms_len rest_expr + wildcard_min_length pattern
      in if ms_len remaining < needed_length then gen_stop
         else with_substitution subst (\<lambda>s.
           case bound_fixed_vars s (operation pattern) (fixed_variables pattern) remaining
                  (fixed_variables pattern) of
             None \<Rightarrow> gen_stop
           | Some (remaining', fixed_vars) \<Rightarrow>
               (case variable_factories env pattern fixed_vars of
                  Inl e \<Rightarrow> gen_raise e
                | Inr factories \<Rightarrow>
                    gen_for
                      (iterator_chain (remaining', subst)
                         (map (\<lambda>e. fixed_expr_factory env e matcher) (ms_elements rest_expr)
                            @ factories))
                      (sequence_matches env pattern fixed_vars))))"

text \<open>The first component is what the source calls \<^verbatim>\<open>constants\<close>, the second \<^verbatim>\<open>syntactics\<close>.\<close>

definition split_expressions :: "expr pymultiset \<Rightarrow> expr pymultiset \<times> expr pymultiset" where
  "split_expressions expressions =
     (filter (\<lambda>(expression, c).
                \<not> (is_syntactic expression
                   \<or> \<not> (case expression of
                          Operation t _ _ \<Rightarrow> associative t \<or> commutative t
                        | _ \<Rightarrow> False))) expressions,
      filter (\<lambda>(expression, c).
                is_syntactic expression
                \<or> \<not> (case expression of
                       Operation t _ _ \<Rightarrow> associative t \<or> commutative t
                     | _ \<Rightarrow> False)) expressions)"

type_synonym syntactic_matcher =
  "expr pymultiset \<Rightarrow> expr pymultiset \<Rightarrow> (ref \<times> expr pymultiset) gen"

definition match_commutative_operation ::
  "env \<Rightarrow> expr list \<Rightarrow> commutative_patterns_parts \<Rightarrow> ref \<Rightarrow> matcher
     \<Rightarrow> syntactic_matcher option \<Rightarrow> ref gen" where
  "match_commutative_operation env operands pattern substitution matcher syntactic_matcher =
     (if \<exists>e \<in> set operands. \<not> is_constant e then gen_raise ValueError
      else
        (let expressions = ms_of_list operands
         in if \<not> ms_le (constant pattern) expressions then gen_stop
            else
              (let expressions' = ms_diff expressions (constant pattern)
               in case syntactic_matcher of
                    Some sm \<Rightarrow>
                      if syntactic pattern \<noteq> [] then
                        (case split_expressions expressions' of
                           (rest', syntactics) \<Rightarrow>
                             if ms_len syntactics < ms_len (syntactic pattern) then gen_stop
                             else
                               gen_for (sm syntactics (syntactic pattern)) (\<lambda>(subst, remaining).
                                 gen_except_ValueError
                                   (with_substitution subst (\<lambda>s.
                                    with_substitution substitution (\<lambda>other.
                                      case substitution_union s other of
                                        Inl e \<Rightarrow> gen_raise e
                                      | Inr content \<Rightarrow>
                                          new_substitution content (\<lambda>subst'.
                                            matches_from_matching env subst'
                                              (ms_plus remaining rest') pattern matcher False))))))
                      else matches_from_matching env substitution expressions' pattern matcher True
                  | None \<Rightarrow>
                      matches_from_matching env substitution expressions' pattern matcher True)))"

definition match_operation ::
  "env \<Rightarrow> expr list \<Rightarrow> optype \<Rightarrow> expr list \<Rightarrow> ref \<Rightarrow> matcher \<Rightarrow> ref gen" where
  "match_operation env expressions t operands subst matcher =
     (if length operands = 0 then
        (if length expressions = 0 then gen_yield subst else gen_stop)
      else if \<not> commutative t then
        non_commutative_match expressions t operands subst matcher
      else
        (case CommutativePatternsParts t operands of
           Inl e \<Rightarrow> gen_raise e
         | Inr parts \<Rightarrow> match_commutative_operation env expressions parts subst matcher None))"

text \<open>\<^verbatim>\<open>isinstance(e, type(pattern)) and e.name == pattern.name\<close> for a symbol pattern.\<close>

fun same_symbol :: "expr \<Rightarrow> pyclass \<Rightarrow> string \<Rightarrow> bool" where
  "same_symbol (Symbol c' name' _) c name = (issubclass c' c \<and> name' = name)"
| "same_symbol _ _ _ = False"

section \<open>What a generator yields and what it leaves on the heap\<close>

text \<open>
  \<open>hoare P g Q\<close>: started on a heap with \<open>P\<close>, the generator \<open>g\<close> only adds objects to the
  heap, the objects that were there are as they were, and everything it yields has \<open>Q\<close>
  on the heap it leaves.
\<close>

definition hoare :: "(heap \<Rightarrow> bool) \<Rightarrow> 'a gen \<Rightarrow> (heap \<Rightarrow> 'a \<Rightarrow> bool) \<Rightarrow> bool" where
  "hoare P g Q \<longleftrightarrow>
     (\<forall>h. P h \<longrightarrow> (case g h of (xs, e, h') \<Rightarrow> (\<exists>ext. h' = h @ ext) \<and> (\<forall>x \<in> set xs. Q h' x)))"

definition stable :: "(heap \<Rightarrow> bool) \<Rightarrow> bool" where
  "stable P \<longleftrightarrow> (\<forall>h ext. P h \<longrightarrow> P (h @ ext))"

text \<open>The object behind \<open>r\<close> exists and binds at least what \<open>base\<close> binds.\<close>

definition ext_of :: "(string \<rightharpoonup> pyvalue) \<Rightarrow> heap \<Rightarrow> ref \<Rightarrow> bool" where
  "ext_of base h r \<longleftrightarrow> r < length h \<and> base \<subseteq>\<^sub>m map_of (h ! r)"

text \<open>On whatever heap it is started, the generator raises no error outside the set.\<close>

definition raises_only :: "error set \<Rightarrow> 'a gen \<Rightarrow> bool" where
  "raises_only E g \<longleftrightarrow> (\<forall>h e. fst (snd (g h)) = Some e \<longrightarrow> e \<in> E)"

text \<open>
  Every variable counted in the multiset has a name and a positive count, and the
  dictionary has its \<open>VarInfo\<close>.
\<close>

definition names_known :: "name pymultiset \<Rightarrow> (name \<rightharpoonup> var_info) \<Rightarrow> bool" where
  "names_known variables infos \<longleftrightarrow>
     (\<forall>(n, c) \<in> set variables. n \<noteq> None \<and> 0 < c \<and> infos n \<noteq> None)"

text \<open>
  The value that \<open>match_variable\<close> stores under the name of a variable: the subject itself,
  or the tuple of the subjects. A pattern that is not a variable binds nothing at its root.
\<close>

fun binds_root :: "expr \<Rightarrow> expr list \<Rightarrow> substitution \<Rightarrow> bool" where
  "binds_root (Variable name inner constraint) expressions s \<longleftrightarrow>
     map_of s name =
       Some (if length expressions = 1 \<and> (case inner of Wildcard w \<Rightarrow> fixed_size w | _ \<Rightarrow> True)
             then VExpr (hd expressions) else VTuple expressions)"
| "binds_root (Symbol c name constraint) expressions s \<longleftrightarrow> True"
| "binds_root (Wildcard w) expressions s \<longleftrightarrow> True"
| "binds_root (Operation t operands constraint) expressions s \<longleftrightarrow> True"

section \<open>Facts about multisets and the classification\<close>

lemma ms_elements_Nil [simp]: "ms_elements [] = []"
  by (simp add: ms_elements_def)

lemma ms_elements_Cons [simp]: "ms_elements ((x, c) # m) = replicate c x @ ms_elements m"
  by (simp add: ms_elements_def)



lemma keys_incr: "set (ms_keys (ms_incr x m)) = insert x (set (ms_keys m))"
  unfolding ms_keys_def
  by (induction x m rule: ms_incr.induct) (simp_all add: insert_commute)

lemma keys_add_item: "set (ms_keys (ms_add_item x n m)) = insert x (set (ms_keys m))"
  unfolding ms_keys_def
  by (induction x n m rule: ms_add_item.induct) (simp_all add: insert_commute)

lemma keys_plus: "set (ms_keys (ms_plus a b)) = set (ms_keys a) \<union> set (ms_keys b)"
proof -
  have "set (ms_keys (foldl (\<lambda>m (x, c). ms_add_item x c m) a b))
          = set (ms_keys a) \<union> set (ms_keys b)"
  proof (induction b arbitrary: a)
    case Nil
    then show ?case by (simp add: ms_keys_def)
  next
    case (Cons xc b)
    obtain x c where xc: "xc = (x, c)" by (cases xc)
    have "set (ms_keys (xc # b)) = insert x (set (ms_keys b))"
      by (simp add: ms_keys_def xc)
    with Cons.IH [of "ms_add_item x c a"] show ?case
      unfolding xc by (simp add: keys_add_item)
  qed
  then show ?thesis by (simp add: ms_plus_def)
qed

lemma set_elements_keys: "set (ms_elements m) \<subseteq> set (ms_keys m)"
  unfolding ms_keys_def by (induction m) (auto split: if_splits)

lemma ms_keys_Nil [simp]: "ms_keys [] = []"
  by (simp add: ms_keys_def)

lemma classify_operand_keys:
  "classify_operand p e = Inr p' \<Longrightarrow>
     set (ms_keys (rest p')) \<subseteq> insert e (set (ms_keys (rest p)))
   \<and> set (ms_keys (syntactic p')) \<subseteq> insert e (set (ms_keys (syntactic p)))"
  by (cases e) (auto simp: classify_operand_def keys_incr
      split: if_splits expr.splits sum.splits)

lemma classify_operands_keys:
  "classify_operands p es = Inr p' \<Longrightarrow>
     set (ms_keys (rest p')) \<subseteq> set es \<union> set (ms_keys (rest p))
   \<and> set (ms_keys (syntactic p')) \<subseteq> set es \<union> set (ms_keys (syntactic p))"
proof (induction es arbitrary: p)
  case Nil
  then show ?case by simp
next
  case (Cons e es)
  from Cons.prems obtain q where q: "classify_operand p e = Inr q"
    and rest: "classify_operands q es = Inr p'"
    by (auto split: sum.splits)
  from classify_operand_keys [OF q] Cons.IH [OF rest] show ?case
    by auto
qed

lemma parts_keys:
  assumes "CommutativePatternsParts t es = Inr p"
  shows "set (ms_keys (rest p)) \<union> set (ms_keys (syntactic p)) \<subseteq> set es"
proof -
  from assms obtain p0 where run: "classify_operands p0 es = Inr p"
    and empty: "rest p0 = []" "syntactic p0 = []"
    unfolding CommutativePatternsParts_def by fastforce
  from classify_operands_keys [OF run] empty show ?thesis
    by simp
qed

section \<open>The matcher only calls itself on parts of the pattern\<close>

lemma match_variable_cong [fundef_cong]:
  assumes "env = env'" and "expressions = expressions'" and "name = name'"
    and "inner = inner'" and "constraint = constraint'" and "subst = subst'"
    and "\<And>es s. matcher es inner' s = matcher' es inner' s"
  shows "match_variable env expressions name inner constraint subst matcher
           = match_variable env' expressions' name' inner' constraint' subst' matcher'"
proof -
  have eq: "matcher expressions' inner' subst' = matcher' expressions' inner' subst'"
    by (rule assms(7))
  show ?thesis
    unfolding match_variable_def assms(1-6) eq by (rule refl)
qed

lemma non_commutative_match_cong:
  assumes "\<And>es p s. p \<in> set operands \<Longrightarrow> matcher es p s = matcher' es p s"
  shows "non_commutative_match expressions t operands subst matcher
           = non_commutative_match expressions t operands subst matcher'"
proof -
  have eq: "map (\<lambda>(e, operand). match_factory e operand matcher) (zip partition' operands)
          = map (\<lambda>(e, operand). match_factory e operand matcher') (zip partition' operands)"
    for partition'
    by (rule map_cong) (auto simp: match_factory_def assms dest: set_zip_rightD intro!: ext)
  show ?thesis
    unfolding non_commutative_match_def eq by (rule refl)
qed

lemma fixed_expr_factory_cong:
  assumes "\<And>es s. matcher es expression s = matcher' es expression s"
  shows "fixed_expr_factory env expression matcher = fixed_expr_factory env expression matcher'"
  unfolding fixed_expr_factory_def assms by (rule refl)

lemma matches_from_matching_cong:
  assumes "\<And>es p s. p \<in> set (ms_keys (rest pattern)) \<union> set (ms_keys (syntactic pattern))
             \<Longrightarrow> matcher es p s = matcher' es p s"
  shows "matches_from_matching env subst remaining pattern matcher include_syntactic
           = matches_from_matching env subst remaining pattern matcher' include_syntactic"
proof -
  have factories: "map (\<lambda>e. fixed_expr_factory env e matcher) (ms_elements rest_expr)
          = map (\<lambda>e. fixed_expr_factory env e matcher') (ms_elements rest_expr)"
    if "set (ms_keys rest_expr) \<subseteq> set (ms_keys (rest pattern)) \<union> set (ms_keys (syntactic pattern))"
    for rest_expr
  proof (rule map_cong)
    fix e assume "e \<in> set (ms_elements rest_expr)"
    with that set_elements_keys [of rest_expr]
    have "e \<in> set (ms_keys (rest pattern)) \<union> set (ms_keys (syntactic pattern))"
      by blast
    then show "fixed_expr_factory env e matcher = fixed_expr_factory env e matcher'"
      by (intro fixed_expr_factory_cong assms)
  qed simp
  have eq: "map (\<lambda>e. fixed_expr_factory env e matcher)
              (ms_elements (if include_syntactic then ms_plus (rest pattern) (syntactic pattern)
                            else rest pattern))
          = map (\<lambda>e. fixed_expr_factory env e matcher')
              (ms_elements (if include_syntactic then ms_plus (rest pattern) (syntactic pattern)
                            else rest pattern))"
    by (rule factories) (simp add: keys_plus)
  show ?thesis
    unfolding matches_from_matching_def Let_def eq by (rule refl)
qed

lemma match_commutative_operation_cong:
  assumes "\<And>es p s. p \<in> set (ms_keys (rest pattern)) \<union> set (ms_keys (syntactic pattern))
             \<Longrightarrow> matcher es p s = matcher' es p s"
  shows "match_commutative_operation env operands pattern substitution matcher sm
           = match_commutative_operation env operands pattern substitution matcher' sm"
proof -
  have eq: "matches_from_matching env s r pattern matcher inc
              = matches_from_matching env s r pattern matcher' inc" for s r inc
    by (rule matches_from_matching_cong) (rule assms)
  show ?thesis
    unfolding match_commutative_operation_def eq by (rule refl)
qed

lemma match_operation_cong [fundef_cong]:
  assumes "env = env'" and "expressions = expressions'" and "t = t'"
    and "operands = operands'" and "subst = subst'"
    and "\<And>es p s. p \<in> set operands' \<Longrightarrow> matcher es p s = matcher' es p s"
  shows "match_operation env expressions t operands subst matcher
           = match_operation env' expressions' t' operands' subst' matcher'"
proof -
  have commutative: "match_commutative_operation env' expressions' parts subst' matcher None
          = match_commutative_operation env' expressions' parts subst' matcher' None"
    if "CommutativePatternsParts t' operands' = Inr parts" for parts
  proof (rule match_commutative_operation_cong)
    fix es p s
    assume "p \<in> set (ms_keys (rest parts)) \<union> set (ms_keys (syntactic parts))"
    with parts_keys [OF that] have "p \<in> set operands'"
      by blast
    then show "matcher es p s = matcher' es p s"
      by (rule assms(6))
  qed
  have non_commutative: "non_commutative_match expressions' t' operands' subst' matcher
          = non_commutative_match expressions' t' operands' subst' matcher'"
    by (rule non_commutative_match_cong) (rule assms(6))
  show ?thesis
    unfolding match_operation_def assms(1-5) non_commutative
    by (cases "CommutativePatternsParts t' operands'") (simp_all add: commutative)
qed

section \<open>The entry point\<close>

function match :: "env \<Rightarrow> expr list \<Rightarrow> expr \<Rightarrow> ref \<Rightarrow> ref gen" where
  "match env expressions (Variable name inner constraint) subst =
     match_variable env expressions name inner constraint subst (\<lambda>es p s. match env es p s)"
| "match env expressions (Wildcard w) subst = match_wildcard env expressions w subst"
| "match env expressions (Symbol c name constraint) subst =
     (if length expressions = 1 \<and> same_symbol (hd expressions) c name
      then if_accepts env constraint subst (gen_yield subst)
      else gen_stop)"
| "match env expressions (Operation t operands constraint) subst =
     (if length expressions \<noteq> 1 \<or> \<not> isinstance_operation (hd expressions) t then gen_stop
      else
        gen_for
          (match_operation env (operands_of (hd expressions)) t operands subst
             (\<lambda>es p s. match env es p s))
          (\<lambda>result. if_accepts env constraint result (gen_yield result)))"
  by pat_completeness auto
termination
  by (relation "measure (\<lambda>(env, expressions, pattern, subst). size pattern)")
    (auto simp: less_Suc_eq_le size_list_estimation')

section \<open>Properties of the wildcard matcher\<close>

text \<open>
  C3. \<open>match_wildcard\<close> yields the incoming substitution, once and with the heap as it
  was, exactly when the wildcard is fixed-size, the number of subjects is its
  \<open>min_count\<close>, the first subject is an instance of the symbol type of a
  \<open>SymbolWildcard\<close>, and the constraint (if any) accepts the substitution; or the
  wildcard is a sequence wildcard, there are at least \<open>min_count\<close> subjects and the
  constraint accepts. Otherwise it yields nothing.
\<close>

theorem match_wildcard_arity_rule:
  "fst (match_wildcard env subjects w subst h) =
     (if (fixed_size w \<and> length subjects = min_count w
            \<and> (case symbol_type w of None \<Rightarrow> True
                | Some t \<Rightarrow> subjects \<noteq> [] \<and> isinstance_symbol (hd subjects) t)
            \<and> accepts env (wildcard_constraint w) (h ! subst))
          \<or> (\<not> fixed_size w \<and> min_count w \<le> length subjects
            \<and> accepts env (wildcard_constraint w) (h ! subst))
      then [subst] else [])
   \<and> snd (snd (match_wildcard env subjects w subst h)) = h"
  by (cases subjects)
    (auto simp: match_wildcard_def if_accepts_def gen_stop_def gen_yield_def gen_raise_def
      split: option.splits)

text \<open>A sequence wildcard with \<open>min_count = 0\<close> takes the empty list of subjects.\<close>

theorem match_wildcard_arity_rule_witness:
  "fst (match_wildcard \<lparr>holds_atom = (\<lambda>n s. True), expr_lt = (\<lambda>a b. True)\<rparr> []
          (MkWildcard 0 False None None) 0 [[]]) = [0]"
  using match_wildcard_arity_rule [of "\<lparr>holds_atom = (\<lambda>n s. True), expr_lt = (\<lambda>a b. True)\<rparr>"
      "[]" "MkWildcard 0 False None None" 0 "[[]]"]
  by (simp add: accepts_def)

text \<open>
  C9. A fixed-size \<open>SymbolWildcard\<close> with \<open>min_count \<ge> 2\<close> tests the symbol type on the first
  subject only. With exactly \<open>min_count\<close> subjects it yields the substitution, once and with
  the heap as it was, exactly when the first subject is an instance of the symbol type and
  the constraint (if any) accepts; it yields nothing otherwise. What the other subjects
  are does not matter.
\<close>

theorem symbol_wildcard_checks_first_only:
  assumes "fixed_size w" and "symbol_type w = Some t" and "2 \<le> min_count w"
    and "length subjects = min_count w"
  shows "match_wildcard env subjects w subst h =
           (if isinstance_symbol (hd subjects) t \<and> accepts env (wildcard_constraint w) (h ! subst)
            then [subst] else [], None, h)"
proof -
  from assms(3,4) obtain e es where "subjects = e # es"
    by (cases subjects) auto
  with assms show ?thesis
    by (simp add: match_wildcard_def if_accepts_def gen_yield_def gen_stop_def)
qed

text \<open>
  The second subject is an operation, not a symbol: the substitution is yielded when the
  first subject is a \<open>SpecialSymbol\<close>, and not when the first subject is a plain symbol.
\<close>

theorem symbol_wildcard_checks_first_only_witness:
  "\<not> isinstance_symbol (Operation (OpType [''f''] False False) [] None) [''SpecialSymbol'']
   \<and> match_wildcard \<lparr>holds_atom = (\<lambda>n s. True), expr_lt = (\<lambda>a b. True)\<rparr>
        [Symbol [''SpecialSymbol''] ''a'' None, Operation (OpType [''f''] False False) [] None]
        (MkWildcard 2 True (Some [''SpecialSymbol'']) None) 0 [[]]
      = ([0], None, [[]])
   \<and> match_wildcard \<lparr>holds_atom = (\<lambda>n s. True), expr_lt = (\<lambda>a b. True)\<rparr>
        [Symbol [] ''a'' None, Operation (OpType [''f''] False False) [] None]
        (MkWildcard 2 True (Some [''SpecialSymbol'']) None) 0 [[]]
      = ([], None, [[]])
   \<and> match_wildcard \<lparr>holds_atom = (\<lambda>n s. False), expr_lt = (\<lambda>a b. True)\<rparr>
        [Symbol [''SpecialSymbol''] ''a'' None, Operation (OpType [''f''] False False) [] None]
        (MkWildcard 2 True (Some [''SpecialSymbol'']) (Some (Constraint 0))) 0 [[]]
      = ([], None, [[]])"
  using symbol_wildcard_checks_first_only
    [of "MkWildcard 2 True (Some [''SpecialSymbol'']) None" "[''SpecialSymbol'']"
      "[Symbol [''SpecialSymbol''] ''a'' None, Operation (OpType [''f''] False False) [] None]"
      "\<lparr>holds_atom = (\<lambda>n s. True), expr_lt = (\<lambda>a b. True)\<rparr>" 0 "[[]]"]
    symbol_wildcard_checks_first_only
    [of "MkWildcard 2 True (Some [''SpecialSymbol'']) None" "[''SpecialSymbol'']"
      "[Symbol [] ''a'' None, Operation (OpType [''f''] False False) [] None]"
      "\<lparr>holds_atom = (\<lambda>n s. True), expr_lt = (\<lambda>a b. True)\<rparr>" 0 "[[]]"]
    symbol_wildcard_checks_first_only
    [of "MkWildcard 2 True (Some [''SpecialSymbol'']) (Some (Constraint 0))" "[''SpecialSymbol'']"
      "[Symbol [''SpecialSymbol''] ''a'' None, Operation (OpType [''f''] False False) [] None]"
      "\<lparr>holds_atom = (\<lambda>n s. False), expr_lt = (\<lambda>a b. True)\<rparr>" 0 "[[]]"]
  by (simp add: accepts_def issubclass_def)

section \<open>Properties of the classification\<close>














section \<open>Properties of the partition of the subjects\<close>

text \<open>
  C5. In an associative operation pattern, a slot of a fixed-size wildcard takes
  \<open>min_count\<close> operands and its share of the surplus. When \<open>min_count = m \<ge> 1\<close> and the
  slot has taken more than \<open>m\<close> operands, its subjects are the first \<open>m - 1\<close> of them as
  they are, followed by one operation built by \<^verbatim>\<open>from_args\<close> of the pattern's operator type
  from the other operands taken. When \<open>m = 0\<close> nothing is wrapped. This holds at every
  pass of the loop, whatever the position \<open>i\<close> and the index \<open>var_index\<close> reached.
\<close>

theorem associative_rewrapping:
  assumes "associative t" and "inner_of operand = Wildcard w" and "fixed_size w"
    and "var_index < length part"
  shows "build_full_partition_loop part es t (operand # operands) i var_index =
     (let absorbed = take (min_count w + part ! var_index) (drop i es);
          slot = (if 1 \<le> min_count w \<and> min_count w < length absorbed
                  then take (min_count w - 1) absorbed
                         @ [from_args t (drop (min_count w - 1) absorbed)]
                  else absorbed)
      in case build_full_partition_loop part es t operands
                (i + (min_count w + part ! var_index)) (Suc var_index) of
           Inl e \<Rightarrow> Inl e
         | Inr result \<Rightarrow> Inr (slot # result))
   \<and> (min_count w = 0 \<longrightarrow>
        build_full_partition_loop part es t (operand # operands) i var_index =
          (case build_full_partition_loop part es t operands (i + part ! var_index)
                  (Suc var_index) of
             Inl e \<Rightarrow> Inl e
           | Inr result \<Rightarrow> Inr (take (part ! var_index) (drop i es) # result)))"
  using assms by (auto simp: Let_def split: sum.splits)

theorem associative_rewrapping_witness:
  "build_full_partition [1]
     [Symbol [] ''a'' None, Symbol [] ''c'' None, Symbol [] ''d'' None, Symbol [] ''b'' None]
     (OpType [''g''] True False)
     [Symbol [] ''a'' None, Variable ''x'' (Wildcard (MkWildcard 1 True None None)) None,
      Symbol [] ''b'' None]
   = Inr [[Symbol [] ''a'' None],
          [Operation (OpType [''g''] True False) [Symbol [] ''c'' None, Symbol [] ''d'' None] None],
          [Symbol [] ''b'' None]]"
  using associative_rewrapping [of "OpType [''g''] True False"
      "Variable ''x'' (Wildcard (MkWildcard 1 True None None)) None" "MkWildcard 1 True None None"
      0 "[1]"
      "[Symbol [] ''a'' None, Symbol [] ''c'' None, Symbol [] ''d'' None, Symbol [] ''b'' None]"
      "[Symbol [] ''b'' None]" 1]
  by (simp add: build_full_partition_def from_args_def)

section \<open>Properties of the entry point\<close>

text \<open>The definitions that a concrete run of the matcher unfolds.\<close>

lemmas eval_defs =
  match_operation_def CommutativePatternsParts_def classify_operand_def update_var_info_def
  match_commutative_operation_def matches_from_matching_def variable_factories_def
  sequence_matches_def sequence_slots_def fixed_var_iter_factory_def
  commutative_sequence_variable_partition_iter_def sequence_substitution_def
  gen_for_def gen_stop_def gen_yield_def gen_raise_def if_accepts_def with_substitution_def
  new_substitution_def copy_substitution_def set_item_def subst_get_def
  ms_of_list_def ms_le_def ms_diff_def ms_count_def ms_len_def ms_single_def ms_times_def
  ms_del_def ms_keys_def ms_plus_def MultiConstraint_create_def List.map_filter_def accepts_def
  issubclass_def Let_def sorted_exprs_def from_args_def

text \<open>
  C2, as the code has it. \<open>match\<close> on a symbol pattern \<open>s\<close> yields the incoming
  substitution, once, with the heap as it was, exactly when there is one subject, the
  subject is a symbol whose class is the class of \<open>s\<close> or a subclass of it (the test is
  \<^verbatim>\<open>isinstance\<close>), its name is the name of \<open>s\<close>, and the constraint of \<open>s\<close> (if any) accepts
  the substitution. Otherwise it yields nothing. It never raises.
\<close>

theorem match_symbol_rule:
  "match env subjects (Symbol c name k) subst h =
     (if (\<exists>c' k'. subjects = [Symbol c' name k'] \<and> issubclass c' c)
          \<and> accepts env k (h ! subst)
      then [subst] else [], None, h)"
proof (cases subjects)
  case Nil
  then show ?thesis by (simp add: gen_stop_def)
next
  case (Cons e es)
  show ?thesis
  proof (cases es)
    case Nil
    with Cons show ?thesis
      by (cases e) (auto simp: if_accepts_def gen_yield_def gen_stop_def)
  next
    case (Cons e' es')
    with \<open>subjects = e # es\<close> show ?thesis by (simp add: gen_stop_def)
  qed
qed

theorem match_symbol_rule_witness:
  "match \<lparr>holds_atom = (\<lambda>n s. True), expr_lt = (\<lambda>a b. False)\<rparr>
     [Symbol [''SpecialSymbol''] ''a'' None] (Symbol [] ''a'' None) 0 [[]] = ([0], None, [[]])
   \<and> match \<lparr>holds_atom = (\<lambda>n s. True), expr_lt = (\<lambda>a b. False)\<rparr>
     [Symbol [] ''a'' None] (Symbol [''SpecialSymbol''] ''a'' None) 0 [[]] = ([], None, [[]])"
  using match_symbol_rule [of "\<lparr>holds_atom = (\<lambda>n s. True), expr_lt = (\<lambda>a b. False)\<rparr>"
      "[Symbol [''SpecialSymbol''] ''a'' None]" "[]" "''a''" None 0 "[[]]"]
    match_symbol_rule [of "\<lparr>holds_atom = (\<lambda>n s. True), expr_lt = (\<lambda>a b. False)\<rparr>"
      "[Symbol [] ''a'' None]" "[''SpecialSymbol'']" "''a''" None 0 "[[]]"]
  by (simp add: accepts_def issubclass_def)

text \<open>
  The symbol pattern \<^verbatim>\<open>Symbol('a')\<close> matches the subject \<^verbatim>\<open>SpecialSymbol('a')\<close> of a
  subclass: the subject need not be of the exact class of the pattern.
\<close>

theorem match_symbol_exact_subtype_counterexample:
  "\<not> (fst (match \<lparr>holds_atom = (\<lambda>n s. True), expr_lt = (\<lambda>a b. False)\<rparr>
              [Symbol [''SpecialSymbol''] ''a'' None] (Symbol [] ''a'' None) 0 [[]]) = [0]
        \<longleftrightarrow> (\<exists>k'. [Symbol [''SpecialSymbol''] ''a'' None] = [Symbol [] ''a'' k']
                   \<and> accepts \<lparr>holds_atom = (\<lambda>n s. True), expr_lt = (\<lambda>a b. False)\<rparr> None []))"
  by (simp add: if_accepts_def gen_yield_def accepts_def issubclass_def)

text \<open>
  C8. Let \<open>f\<close> be a commutative operation (associative or not) and \<open>x_\<close> a variable \<open>x\<close>
  around a fixed-size wildcard with \<open>min_count = 1\<close>. From the empty substitution, the
  pattern \<open>f(x_, x_)\<close> matches the subject \<open>f(a, a)\<close> exactly once, with the substitution
  \<open>{x \<mapsto> a}\<close>, and it does not match \<open>f(a, b)\<close> when \<open>a\<close> and \<open>b\<close> are different symbols.
\<close>

theorem repeated_fixed_variable:
  assumes "Symbol ca na ka \<noteq> Symbol cb nb kb"
  shows "(\<exists>r h'. match env
            [Operation (OpType cls assoc True) [Symbol ca na ka, Symbol ca na ka] None]
            (Operation (OpType cls assoc True)
               [Variable x (Wildcard (MkWildcard 1 True None None)) None,
                Variable x (Wildcard (MkWildcard 1 True None None)) None] None) 0 [[]]
              = ([r], None, h')
            \<and> h' ! r = [(x, VExpr (Symbol ca na ka))])
       \<and> match env
            [Operation (OpType cls assoc True) [Symbol ca na ka, Symbol cb nb kb] None]
            (Operation (OpType cls assoc True)
               [Variable x (Wildcard (MkWildcard 1 True None None)) None,
                Variable x (Wildcard (MkWildcard 1 True None None)) None] None) 0 [[]]
              = ([], None, [[]])"
proof (cases assoc)
  case True
  have one: "match env
            [Operation (OpType cls True True) [Symbol ca na ka, Symbol ca na ka] None]
            (Operation (OpType cls True True)
               [Variable x (Wildcard (MkWildcard 1 True None None)) None,
                Variable x (Wildcard (MkWildcard 1 True None None)) None] None) 0 [[]]
          = ([1], None, [[], [(x, VExpr (Symbol ca na ka))]])"
    by (simp add: eval_defs)
  have none: "match env
            [Operation (OpType cls True True) [Symbol ca na ka, Symbol cb nb kb] None]
            (Operation (OpType cls True True)
               [Variable x (Wildcard (MkWildcard 1 True None None)) None,
                Variable x (Wildcard (MkWildcard 1 True None None)) None] None) 0 [[]]
          = ([], None, [[]])"
    using assms by (auto simp: eval_defs)
  from one none True show ?thesis by simp
next
  case False
  have one: "match env
            [Operation (OpType cls False True) [Symbol ca na ka, Symbol ca na ka] None]
            (Operation (OpType cls False True)
               [Variable x (Wildcard (MkWildcard 1 True None None)) None,
                Variable x (Wildcard (MkWildcard 1 True None None)) None] None) 0 [[]]
          = ([2], None, [[], [(x, VExpr (Symbol ca na ka))], [(x, VExpr (Symbol ca na ka))]])"
    by (simp add: eval_defs)
  have none: "match env
            [Operation (OpType cls False True) [Symbol ca na ka, Symbol cb nb kb] None]
            (Operation (OpType cls False True)
               [Variable x (Wildcard (MkWildcard 1 True None None)) None,
                Variable x (Wildcard (MkWildcard 1 True None None)) None] None) 0 [[]]
          = ([], None, [[]])"
    using assms by (auto simp: eval_defs)
  from one none False show ?thesis by simp
qed

theorem repeated_fixed_variable_witness:
  "(\<exists>r h'. match \<lparr>holds_atom = (\<lambda>n s. True), expr_lt = (\<lambda>a b. False)\<rparr>
            [Operation (OpType [''f''] False True) [Symbol [] ''a'' None, Symbol [] ''a'' None] None]
            (Operation (OpType [''f''] False True)
               [Variable ''x'' (Wildcard (MkWildcard 1 True None None)) None,
                Variable ''x'' (Wildcard (MkWildcard 1 True None None)) None] None) 0 [[]]
              = ([r], None, h')
            \<and> h' ! r = [(''x'', VExpr (Symbol [] ''a'' None))])
       \<and> match \<lparr>holds_atom = (\<lambda>n s. True), expr_lt = (\<lambda>a b. False)\<rparr>
            [Operation (OpType [''f''] False True) [Symbol [] ''a'' None, Symbol [] ''b'' None] None]
            (Operation (OpType [''f''] False True)
               [Variable ''x'' (Wildcard (MkWildcard 1 True None None)) None,
                Variable ''x'' (Wildcard (MkWildcard 1 True None None)) None] None) 0 [[]]
              = ([], None, [[]])"
  using repeated_fixed_variable [of "[]" "''a''" None "[]" "''b''" None
      "\<lparr>holds_atom = (\<lambda>n s. True), expr_lt = (\<lambda>a b. False)\<rparr>" "[''f'']" False "''x''"]
  by simp

section \<open>Rules for the generators\<close>

lemma hoareI:
  assumes "\<And>h xs e h'. P h \<Longrightarrow> g h = (xs, e, h') \<Longrightarrow>
             (\<exists>ext. h' = h @ ext) \<and> (\<forall>x \<in> set xs. Q h' x)"
  shows "hoare P g Q"
  unfolding hoare_def using assms by (auto split: prod.splits)

lemma hoareD:
  assumes "hoare P g Q" and "P h" and "g h = (xs, e, h')"
  shows "\<exists>ext. h' = h @ ext" and "\<And>x. x \<in> set xs \<Longrightarrow> Q h' x"
  using assms unfolding hoare_def by (auto split: prod.splits)

lemma hoare_weaken:
  assumes "hoare P g Q" and "\<And>h. P' h \<Longrightarrow> P h" and "\<And>h x. Q h x \<Longrightarrow> Q' h x"
  shows "hoare P' g Q'"
  using assms unfolding hoare_def by (fastforce split: prod.splits)

lemma hoare_pure:
  assumes "\<And>h. P h \<Longrightarrow> A" and "A \<Longrightarrow> hoare P g Q"
  shows "hoare P g Q"
  unfolding hoare_def
proof (intro allI impI)
  fix h assume "P h"
  then have A by (rule assms(1))
  then have "hoare P g Q" by (rule assms(2))
  with \<open>P h\<close> show "case g h of (xs, e, h') \<Rightarrow> (\<exists>ext. h' = h @ ext) \<and> (\<forall>x \<in> set xs. Q h' x)"
    by (simp add: hoare_def)
qed

lemma hoare_stop [simp]: "hoare P gen_stop Q"
  by (simp add: hoare_def gen_stop_def)

lemma hoare_raise [simp]: "hoare P (gen_raise e) Q"
  by (simp add: hoare_def gen_raise_def)

lemma hoare_yield:
  assumes "\<And>h. P h \<Longrightarrow> Q h x"
  shows "hoare P (gen_yield x) Q"
  using assms by (simp add: hoare_def gen_yield_def)

lemma hoare_if_accepts:
  assumes "hoare (\<lambda>h. P h \<and> accepts env c (h ! r)) body Q"
  shows "hoare P (if_accepts env c r body) Q"
  using assms by (simp add: hoare_def if_accepts_def gen_stop_def)

lemma hoare_with_substitution:
  assumes "\<And>s. hoare (\<lambda>h. P h \<and> h ! r = s) (body s) Q"
  shows "hoare P (with_substitution r body) Q"
  using assms by (simp add: hoare_def with_substitution_def)

lemma hoare_except:
  assumes "hoare P g Q"
  shows "hoare P (gen_except_ValueError g) Q"
  using assms
  by (auto simp: hoare_def gen_except_ValueError_def split: prod.splits option.splits error.splits)

lemma stable_ext_of [simp]: "stable (\<lambda>h. ext_of base h r)"
  by (auto simp: stable_def ext_of_def nth_append)

lemma stable_conj:
  assumes "stable P" and "stable Q"
  shows "stable (\<lambda>h. P h \<and> Q h)"
  using assms by (simp add: stable_def)

lemma hoare_for_items:
  assumes body: "\<And>x. x \<in> set xs \<Longrightarrow> hoare P (f x) Q"
    and P: "stable P" and Q: "\<And>y. stable (\<lambda>h. Q h y)"
  shows "hoare P (gen_for_items xs f) Q"
  using body
proof (induction xs)
  case Nil
  show ?case by (simp add: hoare_def)
next
  case (Cons x xs)
  have tail: "hoare P (gen_for_items xs f) Q"
    by (rule Cons.IH) (simp add: Cons.prems)
  have head: "hoare P (f x) Q"
    by (rule Cons.prems) simp
  show ?case
  proof (rule hoareI)
    fix h ys e h'
    assume Ph: "P h" and run: "gen_for_items (x # xs) f h = (ys, e, h')"
    obtain ys1 e1 h1 where first: "f x h = (ys1, e1, h1)"
      by (cases "f x h") auto
    from hoareD [OF head Ph first] obtain ext1 where h1: "h1 = h @ ext1"
      and Q1: "\<And>y. y \<in> set ys1 \<Longrightarrow> Q h1 y"
      by blast
    show "(\<exists>ext. h' = h @ ext) \<and> (\<forall>y \<in> set ys. Q h' y)"
    proof (cases e1)
      case (Some err)
      with run first have "ys = ys1" and "h' = h1" by simp_all
      with h1 Q1 show ?thesis by blast
    next
      case None
      obtain ys2 e2 h2 where second: "gen_for_items xs f h1 = (ys2, e2, h2)"
        by (cases "gen_for_items xs f h1") auto
      from P Ph h1 have "P h1" by (simp add: stable_def)
      from hoareD [OF tail this second] obtain ext2 where h2: "h2 = h1 @ ext2"
        and Q2: "\<And>y. y \<in> set ys2 \<Longrightarrow> Q h2 y"
        by blast
      from run first None second have ys: "ys = ys1 @ ys2" and h': "h' = h2" by simp_all
      have "Q h2 y" if "y \<in> set ys1" for y
        using Q1 [OF that] Q [of y] h2 by (simp add: stable_def)
      with Q2 ys h' h1 h2 show ?thesis by auto
    qed
  qed
qed

lemma hoare_for:
  assumes g: "hoare P g M"
    and body: "\<And>x. hoare (\<lambda>h. M h x) (f x) Q"
    and M: "\<And>x. stable (\<lambda>h. M h x)" and Q: "\<And>y. stable (\<lambda>h. Q h y)"
  shows "hoare P (gen_for g f) Q"
proof (rule hoareI)
  fix h ys e h'
  assume Ph: "P h" and run: "gen_for g f h = (ys, e, h')"
  obtain xs e1 h1 where first: "g h = (xs, e1, h1)"
    by (cases "g h") auto
  from hoareD [OF g Ph first] obtain ext1 where h1: "h1 = h @ ext1"
    and M1: "\<And>x. x \<in> set xs \<Longrightarrow> M h1 x"
    by blast
  have loop: "hoare (\<lambda>h. \<forall>x \<in> set xs. M h x) (gen_for_items xs f) Q"
  proof (rule hoare_for_items)
    fix x assume "x \<in> set xs"
    then show "hoare (\<lambda>h. \<forall>x \<in> set xs. M h x) (f x) Q"
      by (intro hoare_weaken [OF body [of x]]) auto
  next
    from M show "stable (\<lambda>h. \<forall>x \<in> set xs. M h x)"
      by (simp add: stable_def)
  qed (rule Q)
  obtain ys2 e2 h2 where second: "gen_for_items xs f h1 = (ys2, e2, h2)"
    by (cases "gen_for_items xs f h1") auto
  from M1 have "\<forall>x \<in> set xs. M h1 x" by blast
  from hoareD [OF loop this second] obtain ext2 where h2: "h2 = h1 @ ext2"
    and Q2: "\<And>y. y \<in> set ys2 \<Longrightarrow> Q h2 y"
    by blast
  from run first second have "ys = ys2" and "h' = h2"
    by (auto simp: gen_for_def split: option.splits)
  with h1 h2 Q2 show "(\<exists>ext. h' = h @ ext) \<and> (\<forall>y \<in> set ys. Q h' y)"
    by auto
qed

lemma hoare_chain:
  assumes "\<And>f st. f \<in> set fs \<Longrightarrow>
             hoare (\<lambda>h. ext_of base h (pr st)) (f st) (\<lambda>h st'. ext_of base h (pr st'))"
  shows "hoare (\<lambda>h. ext_of base h (pr st)) (iterator_chain st fs) (\<lambda>h st'. ext_of base h (pr st'))"
  using assms
proof (induction fs arbitrary: st)
  case Nil
  show ?case by (simp add: hoare_yield)
next
  case (Cons f fs)
  show ?case
    unfolding iterator_chain.simps
  proof (rule hoare_for)
    show "hoare (\<lambda>h. ext_of base h (pr st)) (f st) (\<lambda>h st'. ext_of base h (pr st'))"
      by (rule Cons.prems) simp
  next
    fix st'
    show "hoare (\<lambda>h. ext_of base h (pr st')) (iterator_chain st' fs) (\<lambda>h st''. ext_of base h (pr st''))"
      by (rule Cons.IH) (simp add: Cons.prems)
  qed simp_all
qed

section \<open>Every substitution yielded extends the incoming one\<close>

lemma map_of_dict_set: "map_of (dict_set k v d) = (map_of d)(k \<mapsto> v)"
  by (induction k v d rule: dict_set.induct) (auto simp: fun_eq_iff)

lemma copy_set_accept:
  "copy_substitution r (\<lambda>r'. set_item r' k v (if_accepts env c r' (gen_yield (F r')))) h
     = (if accepts env c (dict_set k v (h ! r)) then [F (length h)] else [], None,
        h @ [dict_set k v (h ! r)])"
  by (simp add: copy_substitution_def set_item_def if_accepts_def gen_yield_def gen_stop_def)

lemma new_accept:
  "new_substitution content (\<lambda>r. if_accepts env c r (gen_yield r)) h
     = (if accepts env c content then [length h] else [], None, h @ [content])"
  by (simp add: new_substitution_def if_accepts_def gen_yield_def gen_stop_def)

lemma hoare_copy_set_accept:
  assumes "base k = None \<or> base k = Some v"
  shows "hoare (\<lambda>h. ext_of base h r)
           (copy_substitution r (\<lambda>r'. set_item r' k v (if_accepts env c r' (gen_yield (F r')))))
           (\<lambda>h x. \<exists>r'. x = F r' \<and> ext_of base h r' \<and> accepts env c (h ! r')
                    \<and> map_of (h ! r') k = Some v)"
proof (rule hoareI)
  fix h xs e h'
  assume pre: "ext_of base h r"
    and run: "copy_substitution r (\<lambda>r'. set_item r' k v (if_accepts env c r' (gen_yield (F r')))) h
                = (xs, e, h')"
  from pre assms have "base \<subseteq>\<^sub>m map_of (dict_set k v (h ! r))"
    by (auto simp: ext_of_def map_of_dict_set map_le_def dom_def)
  with run show "(\<exists>ext. h' = h @ ext) \<and>
      (\<forall>x \<in> set xs. \<exists>r'. x = F r' \<and> ext_of base h' r' \<and> accepts env c (h' ! r')
                       \<and> map_of (h' ! r') k = Some v)"
    unfolding copy_set_accept by (auto simp: ext_of_def map_of_dict_set split: if_splits)
qed

lemma hoare_match_wildcard:
  "hoare (\<lambda>h. ext_of base h r) (match_wildcard env es w r)
     (\<lambda>h x. ext_of base h x \<and> accepts env (wildcard_constraint w) (h ! x))"
  unfolding match_wildcard_def
  by (auto intro!: hoare_if_accepts hoare_yield split: option.splits list.splits)

lemma hoare_match_variable:
  assumes matcher: "\<And>m es s. hoare (\<lambda>h. ext_of m h s) (matcher es inner s) (\<lambda>h x. ext_of m h x)"
  shows "hoare (\<lambda>h. ext_of base h r) (match_variable env es name inner c r matcher)
           (\<lambda>h x. ext_of base h x \<and> accepts env c (h ! x)
                    \<and> binds_root (Variable name inner c) es (h ! x))"
  unfolding match_variable_def Let_def binds_root.simps
proof (rule hoare_with_substitution)
  fix s
  let ?expr = "if length es = 1 \<and> (case inner of Wildcard w \<Rightarrow> fixed_size w | _ \<Rightarrow> True)
               then VExpr (hd es) else VTuple es"
  let ?P = "\<lambda>h. ext_of base h r \<and> h ! r = s"
  let ?Q = "\<lambda>h x. ext_of base h x \<and> accepts env c (h ! x) \<and> map_of (h ! x) name = Some ?expr"
  show "hoare ?P
          (case map_of s name of
             None \<Rightarrow>
               gen_for (matcher es inner r) (\<lambda>new_subst.
                 copy_substitution new_subst (\<lambda>new_subst'.
                   set_item new_subst' name ?expr
                     (if_accepts env c new_subst' (gen_yield new_subst'))))
           | Some v \<Rightarrow>
               if ?expr = v then if_accepts env c r (gen_yield r) else gen_stop)
          ?Q"
  proof (cases "map_of s name")
    case (Some v)
    then show ?thesis
      by (auto intro!: hoare_if_accepts hoare_yield)
  next
    case None
    have "hoare ?P
            (gen_for (matcher es inner r) (\<lambda>new_subst.
               copy_substitution new_subst (\<lambda>new_subst'.
                 set_item new_subst' name ?expr
                   (if_accepts env c new_subst' (gen_yield new_subst')))))
            ?Q"
    proof (rule hoare_pure [where A = "base name = None"])
      fix h assume "?P h"
      with None show "base name = None"
        by (auto simp: ext_of_def map_le_def dom_def)
    next
      assume free: "base name = None"
      show ?thesis
      proof (rule hoare_for [where M = "\<lambda>h x. ext_of base h x"])
        show "hoare ?P (matcher es inner r) (\<lambda>h x. ext_of base h x)"
          by (rule hoare_weaken [OF matcher]) auto
      next
        fix x
        show "hoare (\<lambda>h. ext_of base h x)
                (copy_substitution x (\<lambda>new_subst'.
                   set_item new_subst' name ?expr
                     (if_accepts env c new_subst' (gen_yield new_subst'))))
                ?Q"
          by (rule hoare_weaken [OF hoare_copy_set_accept [where F = "\<lambda>r. r"]])
            (auto simp: free)
      next
        fix y show "stable (\<lambda>h. ext_of base h y \<and> accepts env c (h ! y)
                              \<and> map_of (h ! y) name = Some ?expr)"
          by (auto simp: stable_def ext_of_def nth_append)
      qed simp
    qed
    with None show ?thesis by simp
  qed
qed


lemma hoare_non_commutative_match:
  assumes matcher: "\<And>m es p s. p \<in> set operands \<Longrightarrow>
                      hoare (\<lambda>h. ext_of m h s) (matcher es p s) (\<lambda>h x. ext_of m h x)"
  shows "hoare (\<lambda>h. ext_of base h r) (non_commutative_match es t operands r matcher)
           (\<lambda>h x. ext_of base h x)"
proof -
  have chain: "hoare (\<lambda>h. ext_of base h r)
                 (iterator_chain r
                    (map (\<lambda>(e, operand). match_factory e operand matcher) (zip partition' operands)))
                 (\<lambda>h x. ext_of base h x)" for partition'
    by (rule hoare_chain [where pr = "\<lambda>r. r"])
      (auto simp: match_factory_def dest: set_zip_rightD intro!: matcher)
  show ?thesis
    unfolding non_commutative_match_def
    by (auto split: sum.splits error.splits intro!: hoare_for_items chain)
qed

lemma hoare_fixed_expr_factory:
  assumes matcher: "\<And>m es s. hoare (\<lambda>h. ext_of m h s) (matcher es expression s)
                      (\<lambda>h x. ext_of m h x)"
  shows "hoare (\<lambda>h. ext_of base h (snd st)) (fixed_expr_factory env expression matcher st)
           (\<lambda>h st'. ext_of base h (snd st'))"
proof -
  obtain expressions substitution where st: "st = (expressions, substitution)"
    by (cases st)
  have body: "hoare (\<lambda>h. ext_of base h substitution)
                (if head expr = head expression then
                   gen_for (matcher [expr] expression substitution) (\<lambda>subst.
                     if_accepts env (constraint_of expression) subst
                       (gen_yield (ms_diff expressions (ms_single expr 1), subst)))
                 else gen_stop)
                (\<lambda>h st'. ext_of base h (snd st'))" for expr
  proof (cases "head expr = head expression")
    case True
    have "hoare (\<lambda>h. ext_of base h substitution)
            (gen_for (matcher [expr] expression substitution) (\<lambda>subst.
               if_accepts env (constraint_of expression) subst
                 (gen_yield (ms_diff expressions (ms_single expr 1), subst))))
            (\<lambda>h st'. ext_of base h (snd st'))"
      by (rule hoare_for [where M = "\<lambda>h x. ext_of base h x"])
        (auto intro!: matcher hoare_if_accepts hoare_yield)
    with True show ?thesis by simp
  next
    case False
    then show ?thesis by simp
  qed
  show ?thesis
    unfolding st fixed_expr_factory_def prod.case snd_conv
    by (rule hoare_for_items) (simp_all add: body)
qed

lemma hoare_fixed_var_iter_factory:
  "hoare (\<lambda>h. ext_of base h (snd st)) (fixed_var_iter_factory env variable count' length'' c st)
     (\<lambda>h st'. ext_of base h (snd st'))"
proof -
  obtain expressions substitution where st: "st = (expressions, substitution)"
    by (cases st)
  have bound: "hoare (\<lambda>h. ext_of base h substitution \<and> h ! substitution = s)
                 (if_accepts env c substitution (gen_yield (m, substitution)))
                 (\<lambda>h st'. ext_of base h (snd st'))" for s m
    by (auto intro!: hoare_if_accepts hoare_yield)
  have fresh: "hoare (\<lambda>h. ext_of base h substitution \<and> h ! substitution = s)
                 (copy_substitution substitution (\<lambda>new_substitution.
                    set_item new_substitution name v
                      (if_accepts env c new_substitution (gen_yield (m, new_substitution)))))
                 (\<lambda>h st'. ext_of base h (snd st'))"
    if "map_of s name = None" for s name v m
  proof (rule hoare_pure [where A = "base name = None"])
    fix h assume "ext_of base h substitution \<and> h ! substitution = s"
    with that show "base name = None"
      by (auto simp: ext_of_def map_le_def dom_def)
  next
    assume "base name = None"
    then show ?thesis
      by (intro hoare_weaken [OF hoare_copy_set_accept [where F = "\<lambda>r. (m, r)"]]) auto
  qed
  have unnamed: "hoare (\<lambda>h. ext_of base h substitution \<and> h ! substitution = s)
                   (gen_yield (m, substitution)) (\<lambda>h st'. ext_of base h (snd st'))" for s m
    by (auto intro!: hoare_yield)
  have stableP: "stable (\<lambda>h. ext_of base h substitution \<and> h ! substitution = s)" for s
    by (auto simp: stable_def ext_of_def nth_append)
  show ?thesis
    unfolding st fixed_var_iter_factory_def Let_def
    apply (simp only: prod.case snd_conv)
    apply (rule hoare_with_substitution)
    apply (auto simp: subst_get_def split: option.splits
        intro!: bound fresh unnamed hoare_for_items stableP)
    done
qed


lemma hoare_fixed_var_factories:
  assumes "fixed_var_factories env infos fixed_vars = Inr fs" and "f \<in> set fs"
  shows "hoare (\<lambda>h. ext_of base h (snd st)) (f st) (\<lambda>h st'. ext_of base h (snd st'))"
  using assms
proof (induction fixed_vars arbitrary: fs)
  case Nil
  then show ?case by simp
next
  case (Cons nc fixed_vars)
  obtain name count' where nc: "nc = (name, count')" by (cases nc)
  from Cons.prems(1) obtain info fs' where
    "fixed_var_factories env infos fixed_vars = Inr fs'"
    and "fs = fixed_var_iter_factory env name count' (info_min_count info) (info_constraint info) # fs'"
    unfolding nc by (auto split: option.splits sum.splits)
  with Cons.IH [of fs'] Cons.prems(2) show ?case
    by (auto intro: hoare_fixed_var_iter_factory)
qed

lemma hoare_variable_factories:
  assumes "variable_factories env pattern fixed_vars = Inr fs" and "f \<in> set fs"
  shows "hoare (\<lambda>h. ext_of base h (snd st)) (f st) (\<lambda>h st'. ext_of base h (snd st'))"
  using assms
  by (auto simp: variable_factories_def split: if_splits sum.splits
      intro: hoare_fixed_var_factories hoare_fixed_var_iter_factory)

lemma substitution_union_extends:
  assumes "substitution_union s other = Inr content"
  shows "map_of s \<subseteq>\<^sub>m map_of content \<and> (\<forall>(n, v) \<in> set other. map_of content n = Some v)"
  using assms
proof (induction s other rule: substitution_union.induct)
  case (1 s)
  then show ?case by simp
next
  case (2 s n v other)
  show ?case
  proof (cases "map_of s n")
    case None
    with "2.prems" have run: "substitution_union (s @ [(n, v)]) other = Inr content"
      by simp
    from "2.IH"(1) [OF None run]
    have le: "map_of (s @ [(n, v)]) \<subseteq>\<^sub>m map_of content"
      and rest: "\<forall>(n, v) \<in> set other. map_of content n = Some v"
      by simp_all
    from None have here: "map_of (s @ [(n, v)]) n = Some v"
      by (simp add: map_add_def)
    from le here have "map_of content n = Some v"
      by (metis domI map_le_def)
    moreover have "map_of s \<subseteq>\<^sub>m map_of (s @ [(n, v)])"
      using None by (auto simp: map_le_def map_add_def dom_def split: option.splits)
    with le have "map_of s \<subseteq>\<^sub>m map_of content"
      by (blast intro: map_le_trans)
    ultimately show ?thesis using rest by simp
  next
    case (Some v')
    with "2.prems" have same: "v' = v" and run: "substitution_union s other = Inr content"
      by (simp_all split: if_splits)
    from "2.IH"(2) [OF Some same run]
    have le: "map_of s \<subseteq>\<^sub>m map_of content"
      and rest: "\<forall>(n, v) \<in> set other. map_of content n = Some v"
      by simp_all
    from le Some same have "map_of content n = Some v"
      by (metis domI map_le_def)
    with le rest show ?thesis by simp
  qed
qed

lemma substitution_union_other:
  assumes "substitution_union s other = Inr content"
  shows "map_of other \<subseteq>\<^sub>m map_of content"
proof -
  have "map_of content n = Some v" if "map_of other n = Some v" for n v
    using substitution_union_extends [OF assms] map_of_SomeD [OF that] by auto
  then show ?thesis
    by (auto simp: map_le_def)
qed

lemma hoare_sequence_matches:
  "hoare (\<lambda>h. ext_of base h (snd st)) (sequence_matches env pattern fixed_vars st)
     (\<lambda>h x. ext_of base h x)"
proof -
  obtain rem_expr subst where st: "st = (rem_expr, subst)"
    by (cases st)
  have result: "hoare (\<lambda>h. ext_of base h subst)
                  (with_substitution subst (\<lambda>other.
                     case substitution_union s other of
                       Inl ValueError \<Rightarrow> gen_stop
                     | Inl e \<Rightarrow> gen_raise e
                     | Inr content \<Rightarrow>
                         new_substitution content (\<lambda>result.
                           if_accepts env c result (gen_yield result))))
                  (\<lambda>h x. ext_of base h x)" for s c
  proof (rule hoare_with_substitution)
    fix other
    show "hoare (\<lambda>h. ext_of base h subst \<and> h ! subst = other)
            (case substitution_union s other of
               Inl ValueError \<Rightarrow> gen_stop
             | Inl e \<Rightarrow> gen_raise e
             | Inr content \<Rightarrow>
                 new_substitution content (\<lambda>result. if_accepts env c result (gen_yield result)))
            (\<lambda>h x. ext_of base h x)"
    proof (cases "substitution_union s other")
      case (Inl e)
      then show ?thesis by (cases e) simp_all
    next
      case (Inr content)
      have "hoare (\<lambda>h. ext_of base h subst \<and> h ! subst = other)
              (new_substitution content (\<lambda>result. if_accepts env c result (gen_yield result)))
              (\<lambda>h x. ext_of base h x)"
      proof (rule hoareI)
        fix h xs e h'
        assume pre: "ext_of base h subst \<and> h ! subst = other"
          and run: "new_substitution content (\<lambda>result. if_accepts env c result (gen_yield result)) h
                      = (xs, e, h')"
        from pre substitution_union_other [OF Inr] have "base \<subseteq>\<^sub>m map_of content"
          by (auto simp: ext_of_def intro: map_le_trans)
        with run show "(\<exists>ext. h' = h @ ext) \<and> (\<forall>x \<in> set xs. ext_of base h' x)"
          unfolding new_accept by (auto simp: ext_of_def split: if_splits)
      qed
      with Inr show ?thesis by simp
    qed
  qed
  have body: "hoare (\<lambda>h. ext_of base h subst)
                (case r of
                   Inl e \<Rightarrow> gen_raise e
                 | Inr s \<Rightarrow>
                     with_substitution subst (\<lambda>other.
                       case substitution_union s other of
                         Inl ValueError \<Rightarrow> gen_stop
                       | Inl e \<Rightarrow> gen_raise e
                       | Inr content \<Rightarrow>
                           new_substitution content (\<lambda>result.
                             if_accepts env c result (gen_yield result))))
                (\<lambda>h x. ext_of base h x)" for r c
    by (cases r) (simp_all add: result)
  show ?thesis
    unfolding st sequence_matches_def prod.case snd_conv
    by (cases "sequence_slots pattern fixed_vars")
      (auto intro!: hoare_for_items body)
qed

lemma hoare_matches_from_matching:
  assumes matcher: "\<And>m es p s. p \<in> set (ms_keys (rest pattern)) \<union> set (ms_keys (syntactic pattern))
                      \<Longrightarrow> hoare (\<lambda>h. ext_of m h s) (matcher es p s) (\<lambda>h x. ext_of m h x)"
  shows "hoare (\<lambda>h. ext_of base h r)
           (matches_from_matching env r remaining pattern matcher include_syntactic)
           (\<lambda>h x. ext_of base h x)"
proof -
  define rest_expr where
    "rest_expr = (if include_syntactic then ms_plus (rest pattern) (syntactic pattern)
                  else rest pattern)"
  have keys: "set (ms_elements rest_expr)
                \<subseteq> set (ms_keys (rest pattern)) \<union> set (ms_keys (syntactic pattern))"
    using set_elements_keys [of rest_expr] by (auto simp: rest_expr_def keys_plus)
  have chain: "hoare (\<lambda>h. ext_of base h r)
                 (gen_for
                    (iterator_chain (remaining', r)
                       (map (\<lambda>e. fixed_expr_factory env e matcher) (ms_elements rest_expr) @ factories))
                    (sequence_matches env pattern fixed_vars))
                 (\<lambda>h x. ext_of base h x)"
    if "variable_factories env pattern fixed_vars = Inr factories" for remaining' fixed_vars factories
  proof (rule hoare_for [where M = "\<lambda>h st. ext_of base h (snd st)"])
    have "hoare (\<lambda>h. ext_of base h (snd (remaining', r)))
            (iterator_chain (remaining', r)
               (map (\<lambda>e. fixed_expr_factory env e matcher) (ms_elements rest_expr) @ factories))
            (\<lambda>h st'. ext_of base h (snd st'))"
    proof (rule hoare_chain [where pr = snd])
      fix f st
      assume "f \<in> set (map (\<lambda>e. fixed_expr_factory env e matcher) (ms_elements rest_expr)
                         @ factories)"
      then consider e where "e \<in> set (ms_elements rest_expr)"
          and "f = fixed_expr_factory env e matcher"
        | "f \<in> set factories"
        by auto
      then show "hoare (\<lambda>h. ext_of base h (snd st)) (f st) (\<lambda>h st'. ext_of base h (snd st'))"
      proof cases
        case 1
        with keys show ?thesis
          by (auto intro!: hoare_fixed_expr_factory matcher)
      next
        case 2
        with that show ?thesis
          by (rule hoare_variable_factories)
      qed
    qed
    then show "hoare (\<lambda>h. ext_of base h r)
            (iterator_chain (remaining', r)
               (map (\<lambda>e. fixed_expr_factory env e matcher) (ms_elements rest_expr) @ factories))
            (\<lambda>h st'. ext_of base h (snd st'))"
      by simp
  next
    fix st
    show "hoare (\<lambda>h. ext_of base h (snd st)) (sequence_matches env pattern fixed_vars st)
            (\<lambda>h x. ext_of base h x)"
      by (rule hoare_sequence_matches)
  qed simp_all
  have inner: "hoare (\<lambda>h. ext_of base h r \<and> h ! r = s)
                 (case bound_fixed_vars s (operation pattern) (fixed_variables pattern) remaining
                         (fixed_variables pattern) of
                    None \<Rightarrow> gen_stop
                  | Some (remaining', fixed_vars) \<Rightarrow>
                      (case variable_factories env pattern fixed_vars of
                         Inl e \<Rightarrow> gen_raise e
                       | Inr factories \<Rightarrow>
                           gen_for
                             (iterator_chain (remaining', r)
                                (map (\<lambda>e. fixed_expr_factory env e matcher) (ms_elements rest_expr)
                                   @ factories))
                             (sequence_matches env pattern fixed_vars)))
                 (\<lambda>h x. ext_of base h x)" for s
    by (auto split: option.splits sum.splits prod.splits
        intro!: hoare_weaken [OF chain])
  show ?thesis
    unfolding matches_from_matching_def Let_def rest_expr_def [symmetric]
    by (auto intro!: hoare_with_substitution inner)
qed

lemma hoare_match_operation:
  assumes matcher: "\<And>m es p s. p \<in> set operands \<Longrightarrow>
                      hoare (\<lambda>h. ext_of m h s) (matcher es p s) (\<lambda>h x. ext_of m h x)"
  shows "hoare (\<lambda>h. ext_of base h r) (match_operation env es t operands r matcher)
           (\<lambda>h x. ext_of base h x)"
proof -
  have commutative: "hoare (\<lambda>h. ext_of base h r)
                       (match_commutative_operation env es parts r matcher None)
                       (\<lambda>h x. ext_of base h x)"
    if "CommutativePatternsParts t operands = Inr parts" for parts
  proof -
    have "hoare (\<lambda>h. ext_of base h r)
            (matches_from_matching env r remaining parts matcher True)
            (\<lambda>h x. ext_of base h x)" for remaining
      using parts_keys [OF that]
      by (intro hoare_matches_from_matching matcher) blast
    then show ?thesis
      unfolding match_commutative_operation_def Let_def by simp
  qed
  have non_commutative: "hoare (\<lambda>h. ext_of base h r)
                           (non_commutative_match es t operands r matcher)
                           (\<lambda>h x. ext_of base h x)"
    by (rule hoare_non_commutative_match) (rule matcher)
  have empty: "hoare (\<lambda>h. ext_of base h r) (gen_yield r) (\<lambda>h x. ext_of base h x)"
    by (rule hoare_yield)
  show ?thesis
  proof (cases "CommutativePatternsParts t operands")
    case (Inl e)
    with non_commutative empty show ?thesis
      by (simp add: match_operation_def)
  next
    case (Inr parts)
    with non_commutative empty commutative [OF Inr] show ?thesis
      by (simp add: match_operation_def)
  qed
qed

lemma match_sound:
  "hoare (\<lambda>h. ext_of base h r) (match env es p r)
     (\<lambda>h x. ext_of base h x \<and> accepts env (constraint_of p) (h ! x) \<and> binds_root p es (h ! x))"
proof (induction env es p r arbitrary: base rule: match.induct)
  case (1 env expressions name inner constraint subst)
  have inner: "hoare (\<lambda>h. ext_of m h s) (match env es inner s) (\<lambda>h x. ext_of m h x)" for m es s
    by (rule hoare_weaken [OF "1.IH"]) auto
  show ?case
    unfolding match.simps constraint_of.simps by (rule hoare_match_variable) (rule inner)
next
  case (2 env expressions w subst)
  show ?case
    by (simp add: hoare_match_wildcard)
next
  case (3 env expressions c name constraint subst)
  show ?case
    by (auto intro!: hoare_if_accepts hoare_yield)
next
  case (4 env expressions t operands constraint subst)
  show ?case
  proof (cases "length expressions \<noteq> 1 \<or> \<not> isinstance_operation (hd expressions) t")
    case True
    then show ?thesis by auto
  next
    case False
    have inner: "hoare (\<lambda>h. ext_of m h s) (match env es p s) (\<lambda>h x. ext_of m h x)"
      if "p \<in> set operands" for m es p s
      by (rule hoare_weaken [OF "4.IH" [OF False that]]) auto
    have "hoare (\<lambda>h. ext_of base h subst)
            (gen_for
               (match_operation env (operands_of (hd expressions)) t operands subst
                  (\<lambda>es p s. match env es p s))
               (\<lambda>result. if_accepts env constraint result (gen_yield result)))
            (\<lambda>h x. ext_of base h x \<and> accepts env constraint (h ! x))"
    proof (rule hoare_for [where M = "\<lambda>h x. ext_of base h x"])
      show "hoare (\<lambda>h. ext_of base h subst)
              (match_operation env (operands_of (hd expressions)) t operands subst
                 (\<lambda>es p s. match env es p s))
              (\<lambda>h x. ext_of base h x)"
        by (rule hoare_match_operation) (rule inner)
    next
      fix y show "stable (\<lambda>h. ext_of base h y \<and> accepts env constraint (h ! y))"
        by (auto simp: stable_def ext_of_def nth_append)
    qed (auto intro!: hoare_if_accepts hoare_yield)
    with False show ?thesis
      by simp
  qed
qed

section \<open>The errors that a generator raises\<close>

lemma raises_only_stop [simp]: "raises_only E gen_stop"
  by (simp add: raises_only_def gen_stop_def)

lemma raises_only_yield [simp]: "raises_only E (gen_yield x)"
  by (simp add: raises_only_def gen_yield_def)












section \<open>The dictionaries of a constructed pattern know its variables\<close>

lemma names_known_Nil [simp]: "names_known [] infos"
  by (simp add: names_known_def)
























section \<open>Soundness, error discipline and frame of the matcher\<close>




text \<open>
  Two more runs. With a fixed variable of \<open>min_count = 2\<close> that occurs twice, the factory
  binds the variable to \<^verbatim>\<open>list(sub_counter)\<close>, the operands of both occurrences. The
  constraint of an unnamed wildcard in a commutative pattern is read by the classifier
  and never asked.
\<close>

lemma fixed_var_binding_run:
  "match \<lparr>holds_atom = (\<lambda>n s. True), expr_lt = (\<lambda>a b. False)\<rparr>
     [Operation (OpType [''f''] False True)
        [Symbol [] ''a'' None, Symbol [] ''a'' None, Symbol [] ''b'' None, Symbol [] ''b'' None] None]
     (Operation (OpType [''f''] False True)
        [Variable ''x'' (Wildcard (MkWildcard 2 True None None)) None,
         Variable ''x'' (Wildcard (MkWildcard 2 True None None)) None] None) 0 [[]]
   = ([2], None,
      [[],
       [(''x'', VList [Symbol [] ''a'' None, Symbol [] ''a'' None,
                       Symbol [] ''b'' None, Symbol [] ''b'' None])],
       [(''x'', VList [Symbol [] ''a'' None, Symbol [] ''a'' None,
                       Symbol [] ''b'' None, Symbol [] ''b'' None])]])"
  by code_simp

lemma unnamed_wildcard_constraint_run:
  "match \<lparr>holds_atom = (\<lambda>n s. False), expr_lt = (\<lambda>a b. False)\<rparr>
     [Operation (OpType [''f''] False True) [Symbol [] ''a'' None] None]
     (Operation (OpType [''f''] False True)
        [Wildcard (MkWildcard 1 True None (Some (Constraint 0)))] None) 0 [[]]
   = ([1], None, [[], []])"
  by code_simp




text \<open>
  C10. The matcher never changes a substitution object that it was given: \<open>match_wildcard\<close>
  and \<open>match_variable\<close> on a bound name yield at most the incoming reference and leave
  the heap as it was; \<open>_fixed_var_iter_factory\<close> and \<open>match\<close> only add new objects to the
  heap, so every object that was there, the incoming substitution among them, holds after
  the enumeration what it held before.
\<close>

theorem match_frame:
  "snd (snd (match_wildcard env subjects w subst h)) = h
   \<and> set (fst (match_wildcard env subjects w subst h)) \<subseteq> {subst}
   \<and> (map_of (h ! subst) name \<noteq> None \<longrightarrow>
        snd (snd (match_variable env subjects name inner c subst matcher h)) = h
        \<and> set (fst (match_variable env subjects name inner c subst matcher h)) \<subseteq> {subst})
   \<and> (subst < length h \<longrightarrow>
        (\<exists>ext. snd (snd (fixed_var_iter_factory env variable count' length'' k
                          (remaining, subst) h)) = h @ ext)
        \<and> (\<exists>ext. snd (snd (match env subjects pattern subst h)) = h @ ext)
        \<and> snd (snd (match env subjects pattern subst h)) ! subst = h ! subst)"
proof (intro conjI impI)
  show "snd (snd (match_wildcard env subjects w subst h)) = h"
    by (simp add: match_wildcard_def if_accepts_def gen_stop_def gen_yield_def gen_raise_def
        split: option.splits list.splits)
  show "set (fst (match_wildcard env subjects w subst h)) \<subseteq> {subst}"
    by (simp add: match_wildcard_def if_accepts_def gen_stop_def gen_yield_def gen_raise_def
        split: option.splits list.splits)
next
  assume "map_of (h ! subst) name \<noteq> None"
  then show "snd (snd (match_variable env subjects name inner c subst matcher h)) = h"
    and "set (fst (match_variable env subjects name inner c subst matcher h)) \<subseteq> {subst}"
    by (auto simp: match_variable_def with_substitution_def if_accepts_def gen_stop_def
        gen_yield_def Let_def split: if_splits)
next
  assume valid: "subst < length h"
  then have pre: "ext_of Map.empty h subst"
    by (simp add: ext_of_def)
  obtain xs e h' where run: "match env subjects pattern subst h = (xs, e, h')"
    by (cases "match env subjects pattern subst h") auto
  from hoareD(1) [OF match_sound pre run] obtain ext where h': "h' = h @ ext"
    by blast
  with run show "\<exists>ext. snd (snd (match env subjects pattern subst h)) = h @ ext"
    by simp
  from run h' valid show "snd (snd (match env subjects pattern subst h)) ! subst = h ! subst"
    by (simp add: nth_append)
  obtain ys e2 h2 where factory:
    "fixed_var_iter_factory env variable count' length'' k (remaining, subst) h = (ys, e2, h2)"
    by (cases "fixed_var_iter_factory env variable count' length'' k (remaining, subst) h") auto
  from pre have "ext_of Map.empty h (snd (remaining, subst))"
    by simp
  from hoareD(1) [OF hoare_fixed_var_iter_factory this factory] factory
  show "\<exists>ext. snd (snd (fixed_var_iter_factory env variable count' length'' k
                          (remaining, subst) h)) = h @ ext"
    by simp
qed

theorem match_frame_witness:
  "snd (snd (match \<lparr>holds_atom = (\<lambda>n s. True), expr_lt = (\<lambda>a b. False)\<rparr>
       [Symbol [] ''a'' None] (Variable ''x'' (Wildcard (MkWildcard 1 True None None)) None)
       0 [[(''y'', VExpr (Symbol [] ''b'' None))]])) ! 0
     = [(''y'', VExpr (Symbol [] ''b'' None))]
   \<and> match \<lparr>holds_atom = (\<lambda>n s. True), expr_lt = (\<lambda>a b. False)\<rparr>
       [Symbol [] ''a'' None] (Variable ''x'' (Wildcard (MkWildcard 1 True None None)) None)
       0 [[(''y'', VExpr (Symbol [] ''b'' None))]]
     = ([1], None, [[(''y'', VExpr (Symbol [] ''b'' None))],
                    [(''y'', VExpr (Symbol [] ''b'' None)), (''x'', VExpr (Symbol [] ''a'' None))]])
   \<and> match_variable \<lparr>holds_atom = (\<lambda>n s. True), expr_lt = (\<lambda>a b. False)\<rparr>
       [Symbol [] ''b'' None] ''y'' (Wildcard (MkWildcard 1 True None None)) None 0
       (match \<lparr>holds_atom = (\<lambda>n s. True), expr_lt = (\<lambda>a b. False)\<rparr>)
       [[(''y'', VExpr (Symbol [] ''b'' None))]]
     = ([0], None, [[(''y'', VExpr (Symbol [] ''b'' None))]])"
proof -
  let ?env = "\<lparr>holds_atom = (\<lambda>n s. True), expr_lt = (\<lambda>a b. False)\<rparr>"
  let ?h = "[[(''y'', VExpr (Symbol [] ''b'' None))]]"
  have run: "match ?env [Symbol [] ''a'' None]
               (Variable ''x'' (Wildcard (MkWildcard 1 True None None)) None) 0 ?h
             = ([1], None, [[(''y'', VExpr (Symbol [] ''b'' None))],
                    [(''y'', VExpr (Symbol [] ''b'' None)), (''x'', VExpr (Symbol [] ''a'' None))]])"
    by (simp add: match_variable_def match_wildcard_def eval_defs)
  have bound: "match_variable ?env [Symbol [] ''b'' None] ''y''
                 (Wildcard (MkWildcard 1 True None None)) None 0 (match ?env) ?h
               = ([0], None, ?h)"
    by (simp add: match_variable_def eval_defs)
  from match_frame [of ?env "[Symbol [] ''a'' None]" "MkWildcard 1 True None None" 0 ?h
      "''y''" "Wildcard (MkWildcard 1 True None None)" None "match ?env"
      "Some ''x''" 1 1 None "[]"
      "Variable ''x'' (Wildcard (MkWildcard 1 True None None)) None"]
    run bound
  show ?thesis by simp
qed

end
